theory Spec2Isabelle
  imports Complex_Main "HOL-Library.Multiset"
begin

section \<open>Data model\<close>

text \<open>
  A Detection is the dictionary that \<^verbatim>\<open>detect\<close> appends to its list:
  \<^verbatim>\<open>{"label": ..., "score": ..., "box": {"xmin": ..., "ymin": ..., "xmax": ..., "ymax": ...}}\<close>.
  Scores and coordinates are Python floats, modelled as real numbers. \<^verbatim>\<open>apply_nms\<close> copies
  them into single-precision tensors, and the suppression computes in single precision:
  every such value is a real number rounded by \<open>float32\<close> below, and every operation of the
  kernel rounds its result. What IEEE division does at a zero divisor is part of the model
  (see \<open>fdiv\<close>). Overflow to an infinity is not: the model describes the code on
  magnitudes below \<open>2 ^ 128\<close>, far above any pixel coordinate or area.
\<close>

record bbox =
  xmin :: real
  ymin :: real
  xmax :: real
  ymax :: real

record detection =
  label :: string
  score :: real
  box :: bbox

text \<open>Shorthand for writing a Detection down.\<close>

abbreviation Detection :: "string \<Rightarrow> real \<Rightarrow> real \<Rightarrow> real \<Rightarrow> real \<Rightarrow> real \<Rightarrow> detection" where
  "Detection l s x0 y0 x1 y1 \<equiv>
     \<lparr>label = l, score = s, box = \<lparr>xmin = x0, ymin = y0, xmax = x1, ymax = y1\<rparr>\<rparr>"

datatype py_error = IndexError | KeyError | RuntimeError

section \<open>Single-precision arithmetic\<close>

text \<open>
  \<^verbatim>\<open>torch.tensor\<close> of a list of Python floats has dtype float32. \<open>float32 x\<close> is the
  single-precision number nearest to \<open>x\<close>, ties going to the even significand: with
  \<open>2 ^ k \<le> |x| < 2 ^ (k + 1)\<close> the spacing of the representable numbers around \<open>x\<close> is
  \<open>2 ^ (k - 23)\<close> (24 significand bits), and \<open>2 ^ (- 149)\<close> in the subnormal range.
\<close>

text \<open>The binary exponent \<open>k\<close> of a positive number, found by halving or doubling.\<close>

function exp2 :: "real \<Rightarrow> int" where
  "exp2 x =
     (if x \<le> 0 then 0
      else if 2 \<le> x then exp2 (x / 2) + 1
      else if x < 1 then exp2 (x * 2) - 1
      else 0)"
  by pat_completeness auto
termination
proof (relation "measure (\<lambda>x. nat \<bar>\<lfloor>log 2 x\<rfloor>\<bar>)")
  show "wf (measure (\<lambda>x. nat \<bar>\<lfloor>log 2 x\<rfloor>\<bar>))" by simp
next
  fix x :: real
  assume a: "\<not> x \<le> 0" "2 \<le> x"
  have "log 2 (x / 2) = log 2 x - 1" using a by (simp add: log_divide)
  moreover have "1 \<le> log 2 x" using a by (simp add: le_log_iff)
  ultimately show "(x / 2, x) \<in> measure (\<lambda>x. nat \<bar>\<lfloor>log 2 x\<rfloor>\<bar>)"
    by simp
next
  fix x :: real
  assume a: "\<not> x \<le> 0" "\<not> 2 \<le> x" "x < 1"
  have l: "log 2 (x * 2) = log 2 x + 1" using a by (simp add: log_mult)
  have eq: "\<lfloor>log 2 (x * 2)\<rfloor> = \<lfloor>log 2 x\<rfloor> + 1" unfolding l by simp
  have "log 2 x < 0" using a by simp
  then have f: "\<lfloor>log 2 x\<rfloor> \<le> - 1" by (simp add: floor_le_iff)
  have "nat \<bar>\<lfloor>log 2 (x * 2)\<rfloor>\<bar> < nat \<bar>\<lfloor>log 2 x\<rfloor>\<bar>"
    unfolding eq using f by linarith
  then show "(x * 2, x) \<in> measure (\<lambda>x. nat \<bar>\<lfloor>log 2 x\<rfloor>\<bar>)"
    by (simp only: in_measure)
qed

declare exp2.simps [simp del]

text \<open>Rounding to the nearest integer, a tie going to the even one.\<close>

definition round_even :: "real \<Rightarrow> int" where
  "round_even r =
     (let f = \<lfloor>r\<rfloor>; d = r - of_int f
      in if d < 1 / 2 then f else if 1 / 2 < d then f + 1
         else if even f then f else f + 1)"

text \<open>The exponent of the spacing of the representable numbers around \<open>x\<close>.\<close>

definition quantum :: "real \<Rightarrow> int" where
  "quantum x = max (exp2 \<bar>x\<bar> - 23) (- 149)"

definition float32 :: "real \<Rightarrow> real" where
  "float32 x =
     (if x = 0 then 0
      else sgn x * (of_int (round_even (\<bar>x\<bar> / 2 powi quantum x)) * 2 powi quantum x))"

section \<open>The library call: torchvision.ops.nms\<close>

text \<open>
  \<^verbatim>\<open>apply_nms\<close> delegates the suppression to \<^verbatim>\<open>torchvision.ops.nms(boxes, scores, iou_threshold)\<close>,
  a library function outside the repository. The model follows the library's CPU kernel:
  the indices are ordered by a stable, descending sort of the scores; the outer loop walks
  that order, skips an index already marked suppressed, and otherwise keeps it; the inner
  loop marks every later, not yet suppressed index \<open>j\<close> whose overlap with the kept box
  satisfies \<^verbatim>\<open>ovr > iou_threshold\<close>, where
  \<^verbatim>\<open>ovr = inter / (iarea + areas[j] - inter)\<close>. The kept indices are returned in the
  order in which they were kept. The kernel runs on float32 tensors: each subtraction,
  product, sum and quotient is rounded to single precision; the threshold is a double and
  the comparison with it is exact.
\<close>

text \<open>A row \<^verbatim>\<open>[x1, y1, x2, y2]\<close> of the \<^verbatim>\<open>boxes\<close> tensor.\<close>

type_synonym row = "real \<times> real \<times> real \<times> real"

text \<open>
  The value of a single-precision division: a zero divisor gives NaN for \<open>0 / 0\<close> and an
  infinity otherwise; nothing is raised.
\<close>

datatype quotient = NaN | PosInf | NegInf | Finite real

definition fdiv :: "real \<Rightarrow> real \<Rightarrow> quotient" where
  "fdiv a b =
     (if b = 0 then (if a = 0 then NaN else if 0 < a then PosInf else NegInf)
      else Finite (float32 (a / b)))"

text \<open>The comparison \<^verbatim>\<open>q > t\<close>; every comparison with NaN is false.\<close>

fun quot_gt :: "quotient \<Rightarrow> real \<Rightarrow> bool" where
  "quot_gt NaN t = False"
| "quot_gt PosInf t = True"
| "quot_gt NegInf t = False"
| "quot_gt (Finite v) t = (t < v)"

text \<open>\<^verbatim>\<open>areas_t = (x2_t - x1_t) * (y2_t - y1_t)\<close>.\<close>

fun area :: "row \<Rightarrow> real" where
  "area (x1, y1, x2, y2) = float32 (float32 (x2 - x1) * float32 (y2 - y1))"

fun inter_area :: "row \<Rightarrow> row \<Rightarrow> real" where
  "inter_area (ix1, iy1, ix2, iy2) (jx1, jy1, jx2, jy2) =
     (let xx1 = max ix1 jx1; yy1 = max iy1 jy1;
          xx2 = min ix2 jx2; yy2 = min iy2 jy2;
          w = max 0 (float32 (xx2 - xx1)); h = max 0 (float32 (yy2 - yy1))
      in float32 (w * h))"

text \<open>The divisor \<^verbatim>\<open>iarea + areas[j] - inter\<close>.\<close>

definition union32 :: "row \<Rightarrow> row \<Rightarrow> real" where
  "union32 bi bj = float32 (float32 (area bi + area bj) - inter_area bi bj)"

definition ovr :: "row \<Rightarrow> row \<Rightarrow> quotient" where
  "ovr bi bj = fdiv (inter_area bi bj) (union32 bi bj)"

fun nms_inner :: "row list \<Rightarrow> real \<Rightarrow> nat \<Rightarrow> nat list \<Rightarrow> bool list \<Rightarrow> bool list" where
  "nms_inner dets thr i [] suppressed = suppressed"
| "nms_inner dets thr i (j # js) suppressed =
     (if suppressed ! j then nms_inner dets thr i js suppressed
      else if quot_gt (ovr (dets ! i) (dets ! j)) thr
           then nms_inner dets thr i js (suppressed[j := True])
           else nms_inner dets thr i js suppressed)"

fun nms_outer :: "row list \<Rightarrow> real \<Rightarrow> nat list \<Rightarrow> bool list \<Rightarrow> nat list" where
  "nms_outer dets thr [] suppressed = []"
| "nms_outer dets thr (i # rest) suppressed =
     (if suppressed ! i then nms_outer dets thr rest suppressed
      else i # nms_outer dets thr rest (nms_inner dets thr i rest suppressed))"

text \<open>\<^verbatim>\<open>scores.sort(stable=True, descending=True)\<close>, the indices of the sorted scores.\<close>

definition argsort_desc :: "real list \<Rightarrow> nat list" where
  "argsort_desc scores = sort_key (\<lambda>i. - (scores ! i)) [0..<length scores]"

text \<open>
  The library checks that there are as many scores as boxes and raises otherwise; an empty
  tensor of boxes gives an empty tensor of indices.
\<close>

definition nms :: "row list \<Rightarrow> real list \<Rightarrow> real \<Rightarrow> py_error + nat list" where
  "nms dets scores thr =
     (if length dets \<noteq> length scores then Inl RuntimeError
      else if dets = [] then Inr []
      else Inr (nms_outer dets thr (argsort_desc scores) (replicate (length dets) False)))"

section \<open>The suppressor: apply\_nms\<close>

text \<open>Python's \<^verbatim>\<open>xs[i]\<close> for a non-negative index: out of range raises IndexError.\<close>

definition getitem :: "'a list \<Rightarrow> nat \<Rightarrow> py_error + 'a" where
  "getitem xs i = (if i < length xs then Inr (xs ! i) else Inl IndexError)"

text \<open>The comprehension \<^verbatim>\<open>[detections[i] for i in keep]\<close>.\<close>

fun gather :: "'a list \<Rightarrow> nat list \<Rightarrow> py_error + 'a list" where
  "gather xs [] = Inr []"
| "gather xs (i # is) =
     (case getitem xs i of
        Inl e \<Rightarrow> Inl e
      | Inr x \<Rightarrow> (case gather xs is of Inl e \<Rightarrow> Inl e | Inr ys \<Rightarrow> Inr (x # ys)))"

text \<open>
  The row of \<^verbatim>\<open>torch.tensor([[d["box"]["xmin"], d["box"]["ymin"], d["box"]["xmax"],
  d["box"]["ymax"]] ...])\<close> for one Detection: the four coordinates in single precision.
\<close>

definition row_of :: "detection \<Rightarrow> row" where
  "row_of d =
     (float32 (xmin (box d)), float32 (ymin (box d)),
      float32 (xmax (box d)), float32 (ymax (box d)))"

text \<open>The entry of \<^verbatim>\<open>torch.tensor([d["score"] ...])\<close> for one Detection.\<close>

definition score32 :: "detection \<Rightarrow> real" where
  "score32 d = float32 (score d)"

definition apply_nms :: "detection list \<Rightarrow> real \<Rightarrow> py_error + detection list" where
  "apply_nms detections iou_threshold =
     (if detections = [] then Inr []
      else
        let boxes = map row_of detections;
            scores = map score32 detections
        in case nms boxes scores iou_threshold of
             Inl e \<Rightarrow> Inl e
           | Inr keep \<Rightarrow> gather detections keep)"

text \<open>
  The test of the kernel's inner loop, read on two Detections: \<open>suppresses thr d e\<close> says
  that the kept Detection \<open>d\<close> marks \<open>e\<close> as suppressed.
\<close>

definition suppresses :: "real \<Rightarrow> detection \<Rightarrow> detection \<Rightarrow> bool" where
  "suppresses thr d e = quot_gt (ovr (row_of d) (row_of e)) thr"

section \<open>The reference algorithm of the specification\<close>

text \<open>
  The greedy algorithm as the specification words it: take the first remaining Detection,
  add it to the kept list, discard every remaining Detection that it discards, repeat.
\<close>

fun greedy_keep :: "('a \<Rightarrow> 'a \<Rightarrow> bool) \<Rightarrow> 'a list \<Rightarrow> 'a list" where
  "greedy_keep discard [] = []"
| "greedy_keep discard (x # xs) =
     x # greedy_keep discard (filter (\<lambda>y. \<not> discard x y) xs)"

text \<open>
  The specification's IoU: intersection area over union area, the intersection area being
  0 for boxes that do not overlap, and a union area of 0 giving IoU 0.
\<close>

definition box_area :: "bbox \<Rightarrow> real" where
  "box_area b = (xmax b - xmin b) * (ymax b - ymin b)"

definition intersection_area :: "bbox \<Rightarrow> bbox \<Rightarrow> real" where
  "intersection_area a b =
     max 0 (min (xmax a) (xmax b) - max (xmin a) (xmin b)) *
     max 0 (min (ymax a) (ymax b) - max (ymin a) (ymin b))"

definition union_area :: "bbox \<Rightarrow> bbox \<Rightarrow> real" where
  "union_area a b = box_area a + box_area b - intersection_area a b"

definition iou_spec :: "bbox \<Rightarrow> bbox \<Rightarrow> real" where
  "iou_spec a b =
     (if union_area a b = 0 then 0 else intersection_area a b / union_area a b)"

text \<open>Stable sort by descending score.\<close>

definition sort_by_score_desc :: "detection list \<Rightarrow> detection list" where
  "sort_by_score_desc ds = sort_key (\<lambda>d. - score d) ds"

text \<open>Stable sort by descending single-precision score.\<close>

definition sort_by_score32_desc :: "detection list \<Rightarrow> detection list" where
  "sort_by_score32_desc ds = sort_key (\<lambda>d. - score32 d) ds"

text \<open>The reference with the comparison \<open>IoU \<ge> threshold\<close>, as the specification states it.\<close>

definition reference_nms :: "detection list \<Rightarrow> real \<Rightarrow> detection list" where
  "reference_nms ds thr =
     greedy_keep (\<lambda>d e. thr \<le> iou_spec (box d) (box e)) (sort_by_score_desc ds)"

text \<open>The same reference with the strict comparison \<open>IoU > threshold\<close>.\<close>

definition reference_nms_strict :: "detection list \<Rightarrow> real \<Rightarrow> detection list" where
  "reference_nms_strict ds thr =
     greedy_keep (\<lambda>d e. thr < iou_spec (box d) (box e)) (sort_by_score_desc ds)"

text \<open>
  The reference in single precision: the Detections are sorted by their single-precision
  scores, and a remaining Detection is discarded when its overlap with the taken one, as
  the kernel computes it in single precision, is strictly greater than the threshold.
\<close>

definition reference_nms_float32 :: "detection list \<Rightarrow> real \<Rightarrow> detection list" where
  "reference_nms_float32 ds thr = greedy_keep (suppresses thr) (sort_by_score32_desc ds)"

section \<open>The endpoint: detect\<close>

text \<open>
  One element of \<^verbatim>\<open>r.boxes\<close>, as \<^verbatim>\<open>detect\<close> reads it: \<^verbatim>\<open>float(box.conf[0])\<close>,
  \<^verbatim>\<open>int(box.cls[0])\<close> and the four entries of \<^verbatim>\<open>box.xyxy[0]\<close>.
\<close>

record raw_box =
  conf :: real
  cls :: int
  xyxy :: row

text \<open>
  The external collaborators of the endpoint:
  \<^item> \<open>decode\<close> is \<^verbatim>\<open>Image.open(BytesIO(contents)).convert("RGB")\<close>; \<open>None\<close> stands for any
    exception it raises;
  \<^item> \<open>to_bgr\<close> is \<^verbatim>\<open>np.array\<close> followed by \<^verbatim>\<open>cv2.cvtColor(_, cv2.COLOR_RGB2BGR)\<close>;
  \<^item> \<open>model\<close> is the detector call \<^verbatim>\<open>model(image_bgr, imgsz=sz)\<close>: a list of results, each
    with its list of boxes (an exception raised inside the detector is not modelled);
  \<^item> \<open>names\<close> is the dictionary \<^verbatim>\<open>model.names\<close>.
\<close>

record ('bytes, 'img) env =
  decode :: "'bytes \<Rightarrow> 'img option"
  to_bgr :: "'img \<Rightarrow> 'img"
  model :: "'img \<Rightarrow> nat \<Rightarrow> raw_box list list"
  names :: "int \<rightharpoonup> string"

text \<open>What the endpoint returns: the error dictionary or the list of Detections.\<close>

datatype response = JsonObject "(string \<times> string) list" | JsonList "detection list"

definition CONFIDENCE_THRESHOLD :: real where
  "CONFIDENCE_THRESHOLD = 4 / 10"

definition IOU_THRESHOLD :: real where
  "IOU_THRESHOLD = 1 / 2"

text \<open>The dictionary appended for a raw box, given its label.\<close>

definition make_detection :: "string \<Rightarrow> raw_box \<Rightarrow> detection" where
  "make_detection l b =
     (case xyxy b of (x0, x1, x2, x3) \<Rightarrow>
        \<lparr>label = l, score = conf b, box = \<lparr>xmin = x0, ymin = x1, xmax = x2, ymax = x3\<rparr>\<rparr>)"

text \<open>
  \<^verbatim>\<open>for box in r.boxes\<close>: a box whose score reaches the threshold is appended, after the
  lookup \<^verbatim>\<open>model.names[class_id]\<close>, which raises KeyError for a missing key.
\<close>

fun boxes_loop ::
  "(int \<rightharpoonup> string) \<Rightarrow> raw_box list \<Rightarrow> detection list \<Rightarrow> py_error + detection list" where
  "boxes_loop nm [] detections = Inr detections"
| "boxes_loop nm (b # bs) detections =
     (if CONFIDENCE_THRESHOLD \<le> conf b then
        (case nm (cls b) of
           None \<Rightarrow> Inl KeyError
         | Some l \<Rightarrow> boxes_loop nm bs (detections @ [make_detection l b]))
      else boxes_loop nm bs detections)"

text \<open>\<^verbatim>\<open>for r in results\<close>.\<close>

fun results_loop ::
  "(int \<rightharpoonup> string) \<Rightarrow> raw_box list list \<Rightarrow> detection list \<Rightarrow> py_error + detection list" where
  "results_loop nm [] detections = Inr detections"
| "results_loop nm (r # rs) detections =
     (case boxes_loop nm r detections of
        Inl e \<Rightarrow> Inl e
      | Inr detections' \<Rightarrow> results_loop nm rs detections')"

text \<open>
  \<^verbatim>\<open>for sz in scales\<close>. The state is the list \<^verbatim>\<open>detections\<close> together with the log of the
  detector's invocations (the \<^verbatim>\<open>imgsz\<close> of each call, in order); an exception leaves the loop.
\<close>

fun scales_loop ::
  "('img \<Rightarrow> nat \<Rightarrow> raw_box list list) \<Rightarrow> (int \<rightharpoonup> string) \<Rightarrow> 'img \<Rightarrow> nat list \<Rightarrow>
   detection list \<Rightarrow> nat list \<Rightarrow> (py_error + detection list) \<times> nat list" where
  "scales_loop md nm img [] detections calls = (Inr detections, calls)"
| "scales_loop md nm img (sz # szs) detections calls =
     (let results = md img sz; calls' = calls @ [sz]
      in case results_loop nm results detections of
           Inl e \<Rightarrow> (Inl e, calls')
         | Inr detections' \<Rightarrow> scales_loop md nm img szs detections' calls')"

text \<open>
  The part of \<^verbatim>\<open>detect\<close> between the decoding and the suppression: the colour conversion
  and the loop over \<^verbatim>\<open>scales = [640, 960, 1280]\<close>, starting from \<^verbatim>\<open>detections = []\<close>.
\<close>

definition collect_detections ::
  "('bytes, 'img) env \<Rightarrow> 'img \<Rightarrow> nat list \<Rightarrow> (py_error + detection list) \<times> nat list" where
  "collect_detections ev img calls =
     (let image_bgr = to_bgr ev img;
          scales = [640, 960, 1280]
      in scales_loop (model ev) (names ev) image_bgr scales [] calls)"

text \<open>
  The handler of \<^verbatim>\<open>POST /detect\<close> on the uploaded bytes. It returns the response, or the
  exception that leaves the handler, and the log of detector invocations.
\<close>

definition detect ::
  "('bytes, 'img) env \<Rightarrow> 'bytes \<Rightarrow> nat list \<Rightarrow> (py_error + response) \<times> nat list" where
  "detect ev contents calls =
     (case decode ev contents of
        None \<Rightarrow> (Inr (JsonObject [(''error'', ''Invalid image'')]), calls)
      | Some img \<Rightarrow>
          (case collect_detections ev img calls of
             (Inl e, calls') \<Rightarrow> (Inl e, calls')
           | (Inr detections, calls') \<Rightarrow>
               (case apply_nms detections IOU_THRESHOLD of
                  Inl e \<Rightarrow> (Inl e, calls')
                | Inr final_detections \<Rightarrow> (Inr (JsonList final_detections), calls'))))"

section \<open>An example environment\<close>

text \<open>
  Collaborators for a concrete run: only the bytes \<open>[255, 216]\<close> decode; the detector
  returns two boxes at 640 (one below the threshold, with a class outside the vocabulary),
  one box at 960 whose confidence is exactly the threshold, and none at 1280.
\<close>

abbreviation example_env :: "(nat list, nat list) env" where
  "example_env \<equiv>
     \<lparr>decode = (\<lambda>bs. if bs = [255, 216] then Some [1, 2, 3] else None),
      to_bgr = rev,
      model = (\<lambda>img sz.
         if sz = 640 then
           [[\<lparr>conf = 9 / 10, cls = 0, xyxy = (0, 0, 10, 10)\<rparr>,
             \<lparr>conf = 3 / 10, cls = 7, xyxy = (2, 2, 4, 4)\<rparr>]]
         else if sz = 960 then [[\<lparr>conf = 4 / 10, cls = 1, xyxy = (1, 1, 5, 5)\<rparr>]]
         else [[]]),
      names = (\<lambda>c. if c = 0 then Some ''stop'' else if c = 1 then Some ''yield'' else None)\<rparr>"

section \<open>Properties of the rounding\<close>

lemma two_powi_Suc: "(2::real) powi (k + 1) = 2 powi k * 2"
  by (rule power_int_add_1) simp

lemma two_powi_diff: "(2::real) powi (a - b) = 2 powi a / 2 powi b"
  by (rule power_int_diff) simp

lemma two_powi_nat: "0 \<le> n \<Longrightarrow> (2::real) powi n = of_int (2 ^ nat n)"
  by (simp add: power_int_nonneg_exp)

lemma two_powi_mono: "a \<le> b \<Longrightarrow> (2::real) powi a \<le> 2 powi b"
  by (rule power_int_increasing) simp_all

lemma two_powi_less_cancel: "(2::real) powi a < 2 powi b \<Longrightarrow> a < b"
  using two_powi_mono[of b a] by (cases "a < b") simp_all

lemma exp2_bracket: "0 < x \<Longrightarrow> 2 powi exp2 x \<le> x \<and> x < 2 powi (exp2 x + 1)"
proof (induction x rule: exp2.induct)
  case (1 x)
  show ?case
  proof (cases "2 \<le> x")
    case True
    then have e: "exp2 x = exp2 (x / 2) + 1" using 1(3) by (subst exp2.simps) simp
    have ih: "2 powi exp2 (x / 2) \<le> x / 2 \<and> x / 2 < 2 powi (exp2 (x / 2) + 1)"
      using 1(1) True 1(3) by simp
    have "2 powi (exp2 (x / 2) + 1) \<le> x"
      using ih two_powi_Suc[of "exp2 (x / 2)"] by linarith
    moreover have "x < 2 powi (exp2 (x / 2) + 1 + 1)"
      using ih two_powi_Suc[of "exp2 (x / 2) + 1"] by linarith
    ultimately show ?thesis unfolding e by blast
  next
    case False
    show ?thesis
    proof (cases "x < 1")
      case True
      then have e: "exp2 x = exp2 (x * 2) - 1" using 1(3) False by (subst exp2.simps) simp
      have ih: "2 powi exp2 (x * 2) \<le> x * 2 \<and> x * 2 < 2 powi (exp2 (x * 2) + 1)"
        using 1(2) True False 1(3) by simp
      have a: "(2::real) powi exp2 (x * 2) = 2 powi (exp2 (x * 2) - 1) * 2"
        using two_powi_Suc[of "exp2 (x * 2) - 1"] by simp
      have b: "(2::real) powi (exp2 (x * 2) + 1) = 2 powi exp2 (x * 2) * 2"
        by (rule two_powi_Suc)
      have "2 powi (exp2 (x * 2) - 1) \<le> x" using ih a by linarith
      moreover have "x < 2 powi (exp2 (x * 2) - 1 + 1)" using ih b by simp
      ultimately show ?thesis unfolding e by blast
    next
      case ge1: False
      then have "exp2 x = 0" using False 1(3) by (subst exp2.simps) simp
      then show ?thesis using False ge1 by simp
    qed
  qed
qed

lemma exp2_unique:
  assumes "0 < x" "2 powi k \<le> x" "x < 2 powi (k + 1)"
  shows "exp2 x = k"
proof -
  from exp2_bracket[OF assms(1)] have b: "2 powi exp2 x \<le> x" "x < 2 powi (exp2 x + 1)" by simp_all
  have "(2::real) powi k < 2 powi (exp2 x + 1)" using assms(2) b(2) by linarith
  then have "k < exp2 x + 1" by (rule two_powi_less_cancel)
  moreover have "(2::real) powi exp2 x < 2 powi (k + 1)" using assms(3) b(1) by linarith
  then have "exp2 x < k + 1" by (rule two_powi_less_cancel)
  ultimately show ?thesis by linarith
qed

lemma exp2_mono:
  assumes "0 < x" "x \<le> y"
  shows "exp2 x \<le> exp2 y"
proof -
  have y: "0 < y" using assms by linarith
  from exp2_bracket[OF assms(1)] exp2_bracket[OF y] assms(2)
  have "(2::real) powi exp2 x < 2 powi (exp2 y + 1)" by linarith
  then have "exp2 x < exp2 y + 1" by (rule two_powi_less_cancel)
  then show ?thesis by linarith
qed

lemma round_even_of_int [simp]: "round_even (of_int n) = n"
  by (simp add: round_even_def)

lemma round_even_floor: "\<lfloor>r\<rfloor> \<le> round_even r \<and> round_even r \<le> \<lfloor>r\<rfloor> + 1"
  unfolding round_even_def Let_def by auto

lemma round_even_mono:
  assumes "r \<le> s"
  shows "round_even r \<le> round_even s"
proof (cases "\<lfloor>r\<rfloor> = \<lfloor>s\<rfloor>")
  case True
  then have "r - of_int \<lfloor>r\<rfloor> \<le> s - of_int \<lfloor>s\<rfloor>" using assms by simp
  then show ?thesis unfolding round_even_def Let_def using True by auto
next
  case False
  then have "\<lfloor>r\<rfloor> < \<lfloor>s\<rfloor>" using floor_mono[OF assms] by linarith
  then show ?thesis using round_even_floor[of r] round_even_floor[of s] by linarith
qed

lemma round_even_nonneg: "0 \<le> r \<Longrightarrow> 0 \<le> round_even r"
  using round_even_mono[of 0 r] round_even_of_int[of 0] by simp

lemma quantum_ge: "- 149 \<le> quantum x" and quantum_ge_exp: "exp2 \<bar>x\<bar> - 23 \<le> quantum x"
  by (simp_all add: quantum_def)

lemma quantum_minus [simp]: "quantum (- x) = quantum x"
  by (simp add: quantum_def)

lemma float32_zero [simp]: "float32 0 = 0"
  by (simp add: float32_def)

lemma float32_minus: "float32 (- x) = - float32 x"
  by (simp add: float32_def sgn_minus)

lemma float32_pos:
  "0 < x \<Longrightarrow> float32 x = of_int (round_even (x / 2 powi quantum x)) * 2 powi quantum x"
  by (simp add: float32_def)

lemma float32_nonneg: "0 \<le> x \<Longrightarrow> 0 \<le> float32 x"
proof (cases "x = 0")
  case True
  then show ?thesis by simp
next
  case False
  assume "0 \<le> x"
  with False have p: "0 < x" by simp
  have "0 \<le> x / 2 powi quantum x" using p by simp
  then have "0 \<le> round_even (x / 2 powi quantum x)" by (rule round_even_nonneg)
  then show ?thesis unfolding float32_pos[OF p] by simp
qed

lemma scaled_less:
  assumes "0 < x"
  shows "x / 2 powi quantum x < 2 powi (exp2 x + 1 - quantum x)"
proof -
  have "x < 2 powi (exp2 x + 1)" using exp2_bracket[OF assms] by simp
  then have "x / 2 powi quantum x < 2 powi (exp2 x + 1) / 2 powi quantum x"
    by (simp add: divide_strict_right_mono)
  then show ?thesis by (simp add: two_powi_diff)
qed

lemma round_even_le_powi:
  assumes "r < 2 powi n" "0 \<le> r"
  shows "of_int (round_even r) \<le> (2::real) powi n"
proof (cases "0 \<le> n")
  case True
  then have e: "(2::real) powi n = of_int (2 ^ nat n)" by (rule two_powi_nat)
  have "round_even r \<le> round_even (of_int (2 ^ nat n))"
    using assms(1) unfolding e by (intro round_even_mono) simp
  then have "round_even r \<le> 2 ^ nat n" by (simp only: round_even_of_int)
  then have "(of_int (round_even r) :: real) \<le> of_int (2 ^ nat n)" by (simp only: of_int_le_iff)
  then show ?thesis unfolding e .
next
  case False
  then have "n \<le> - 1" by simp
  then have "(2::real) powi n \<le> 2 powi (- 1)" by (rule two_powi_mono)
  then have "r < 1 / 2" using assms(1) by (simp add: power_int_minus_divide)
  then have "\<lfloor>r\<rfloor> = 0" using assms(2) by (simp add: floor_eq_iff)
  then have "round_even r = 0" using \<open>r < 1 / 2\<close> by (simp add: round_even_def)
  then show ?thesis by simp
qed

lemma float32_upper:
  assumes "0 < x"
  shows "float32 x \<le> 2 powi (exp2 x + 1)"
proof -
  let ?q = "quantum x"
  have "of_int (round_even (x / 2 powi ?q)) \<le> (2::real) powi (exp2 x + 1 - ?q)"
    using scaled_less[OF assms] assms by (intro round_even_le_powi) simp_all
  then have "of_int (round_even (x / 2 powi ?q)) * 2 powi ?q \<le>
             (2::real) powi (exp2 x + 1 - ?q) * 2 powi ?q"
    by (simp add: mult_right_mono)
  also have "\<dots> = 2 powi (exp2 x + 1)" by (simp add: two_powi_diff)
  finally show ?thesis unfolding float32_pos[OF assms] .
qed

lemma float32_lower:
  assumes "0 < x" "- 126 \<le> exp2 x"
  shows "2 powi exp2 x \<le> float32 x"
proof -
  have q: "quantum x = exp2 x - 23" using assms by (simp add: quantum_def)
  have "2 powi exp2 x \<le> x" using exp2_bracket[OF assms(1)] by simp
  then have "2 powi exp2 x / 2 powi (exp2 x - 23) \<le> x / 2 powi (exp2 x - 23)"
    by (simp add: divide_right_mono)
  moreover have "(2::real) powi exp2 x / 2 powi (exp2 x - 23) = of_int (2 ^ 23)"
    using two_powi_diff[of "exp2 x" "exp2 x - 23"] by simp
  ultimately have "round_even (of_int (2 ^ 23)) \<le> round_even (x / 2 powi (exp2 x - 23))"
    by (intro round_even_mono) simp
  then have "2 ^ 23 \<le> round_even (x / 2 powi (exp2 x - 23))"
    by (simp only: round_even_of_int)
  then have "(of_int (2 ^ 23) :: real) \<le> of_int (round_even (x / 2 powi (exp2 x - 23)))"
    by (simp only: of_int_le_iff)
  then have le: "(of_int (2 ^ 23) :: real) * 2 powi (exp2 x - 23) \<le>
             of_int (round_even (x / 2 powi (exp2 x - 23))) * 2 powi (exp2 x - 23)"
    by (intro mult_right_mono) simp_all
  have eq: "(2::real) powi exp2 x = of_int (2 ^ 23) * 2 powi (exp2 x - 23)"
    using power_int_add[of "2::real" 23 "exp2 x - 23"] by simp
  show ?thesis unfolding float32_pos[OF assms(1)] q using eq le by (rule ord_eq_le_trans)
qed

lemma float32_mono_pos:
  assumes "0 < x" "x \<le> y"
  shows "float32 x \<le> float32 y"
proof -
  have y: "0 < y" using assms by linarith
  have k: "exp2 x \<le> exp2 y" using assms by (rule exp2_mono)
  have ax: "\<bar>x\<bar> = x" and ay: "\<bar>y\<bar> = y" using assms y by simp_all
  have qle: "quantum x \<le> quantum y" using k by (simp add: quantum_def ax ay)
  show ?thesis
  proof (cases "quantum x = quantum y")
    case True
    have "x / 2 powi quantum y \<le> y / 2 powi quantum y"
      using assms(2) by (simp add: divide_right_mono)
    then have "round_even (x / 2 powi quantum y) \<le> round_even (y / 2 powi quantum y)"
      by (rule round_even_mono)
    then have "(of_int (round_even (x / 2 powi quantum y)) :: real) \<le>
               of_int (round_even (y / 2 powi quantum y))" by (simp only: of_int_le_iff)
    then show ?thesis unfolding float32_pos[OF assms(1)] float32_pos[OF y] True
      by (simp add: mult_right_mono)
  next
    case False
    then have lt: "quantum x < quantum y" using qle by simp
    then have "- 149 < quantum y" using quantum_ge[of x] by linarith
    then have qy: "quantum y = exp2 y - 23" by (simp add: quantum_def ay)
    have "exp2 x - 23 < exp2 y - 23" using quantum_ge_exp[of x] lt qy by (simp add: ax)
    then have "exp2 x + 1 \<le> exp2 y" by simp
    then have "(2::real) powi (exp2 x + 1) \<le> 2 powi exp2 y" by (rule two_powi_mono)
    moreover have "- 126 \<le> exp2 y" using \<open>- 149 < quantum y\<close> qy by simp
    ultimately show ?thesis using float32_upper[OF assms(1)] float32_lower[OF y] by linarith
  qed
qed

lemma float32_mono:
  assumes "x \<le> y"
  shows "float32 x \<le> float32 y"
proof -
  consider "0 < x" | "x \<le> 0" "0 \<le> y" | "y < 0" by linarith
  then show ?thesis
  proof cases
    case 1
    then show ?thesis using assms by (rule float32_mono_pos)
  next
    case 2
    have "float32 (- x) \<ge> 0" using 2(1) by (intro float32_nonneg) simp
    then have "float32 x \<le> 0" by (simp add: float32_minus)
    then show ?thesis using float32_nonneg[OF 2(2)] by linarith
  next
    case 3
    have "float32 (- y) \<le> float32 (- x)" using 3 assms by (intro float32_mono_pos) simp_all
    then show ?thesis by (simp add: float32_minus)
  qed
qed

lemma float32_pos_imp: "0 < float32 x \<Longrightarrow> 0 < x"
  using float32_mono[of x 0] by (cases "0 < x") simp_all

lemma float32_exact_pos:
  assumes "0 < m" "m < 2 ^ 24" "- 149 \<le> e"
  shows "float32 (of_int m * 2 powi e) = of_int m * 2 powi e"
proof -
  let ?x = "of_int m * (2::real) powi e"
  have x: "0 < ?x" using assms(1) by simp
  have "(of_int m :: real) < of_int (2 ^ 24)" using assms(2) by (simp only: of_int_less_iff)
  then have "?x < of_int (2 ^ 24) * 2 powi e" by (simp add: mult_strict_right_mono)
  also have "\<dots> = 2 powi (24 + e)" using power_int_add[of "2::real" 24 e] by simp
  finally have "2 powi exp2 ?x < (2::real) powi (24 + e)" using exp2_bracket[OF x] by linarith
  then have "exp2 ?x < 24 + e" by (rule two_powi_less_cancel)
  then have q: "quantum ?x \<le> e" using assms(3) x by (simp add: quantum_def abs_of_pos)
  then have n: "0 \<le> e - quantum ?x" by simp
  have "?x / 2 powi quantum ?x = of_int m * 2 powi (e - quantum ?x)"
    by (simp add: two_powi_diff)
  also have "\<dots> = of_int (m * 2 ^ nat (e - quantum ?x))"
    unfolding two_powi_nat[OF n] by simp
  finally have s: "?x / 2 powi quantum ?x = of_int (m * 2 ^ nat (e - quantum ?x))" .
  have "float32 ?x = of_int (m * 2 ^ nat (e - quantum ?x)) * 2 powi quantum ?x"
    unfolding float32_pos[OF x] s round_even_of_int ..
  also have "\<dots> = of_int m * (2 powi (e - quantum ?x) * 2 powi quantum ?x)"
    unfolding two_powi_nat[OF n] by simp
  also have "2 powi (e - quantum ?x) * 2 powi quantum ?x = (2::real) powi e"
    by (simp add: two_powi_diff)
  finally show ?thesis .
qed

lemma float32_exact_nonneg:
  assumes "0 \<le> m" "m \<le> 2 ^ 24" "- 149 \<le> e"
  shows "float32 (of_int m * 2 powi e) = of_int m * 2 powi e"
proof -
  consider "m = 0" | "0 < m" "m < 2 ^ 24" | "m = 2 ^ 24" using assms by linarith
  then show ?thesis
  proof cases
    case 1
    then show ?thesis by simp
  next
    case 2
    then show ?thesis using assms(3) by (rule float32_exact_pos)
  next
    case 3
    have "(of_int m :: real) * 2 powi e = of_int (2 ^ 23) * 2 powi (e + 1)"
      unfolding 3 two_powi_Suc by simp
    moreover have "float32 (of_int (2 ^ 23) * 2 powi (e + 1)) = of_int (2 ^ 23) * 2 powi (e + 1)"
      using assms(3) by (intro float32_exact_pos) simp_all
    ultimately show ?thesis by simp
  qed
qed

lemma float32_pos_form:
  assumes "0 < x"
  shows "\<exists>m. 0 \<le> m \<and> m \<le> 2 ^ 24 \<and> float32 x = of_int m * 2 powi quantum x"
proof -
  let ?q = "quantum x"
  let ?m = "round_even (x / 2 powi ?q)"
  have "0 \<le> x / 2 powi ?q" using assms by simp
  then have m0: "0 \<le> ?m" by (rule round_even_nonneg)
  have "exp2 x + 1 - ?q \<le> 24" using quantum_ge_exp[of x] assms by (simp add: abs_of_pos)
  then have "(2::real) powi (exp2 x + 1 - ?q) \<le> 2 powi 24" by (rule two_powi_mono)
  moreover have "of_int ?m \<le> (2::real) powi (exp2 x + 1 - ?q)"
    using scaled_less[OF assms] assms by (intro round_even_le_powi) simp_all
  ultimately have "(of_int ?m :: real) \<le> of_int (2 ^ 24)" by simp
  then have "?m \<le> 2 ^ 24" by (simp only: of_int_le_iff)
  with m0 float32_pos[OF assms] show ?thesis by blast
qed

lemma float32_idem: "float32 (float32 x) = float32 x"
proof -
  have pos: "float32 (float32 y) = float32 y" if "0 < y" for y
  proof -
    from float32_pos_form[OF that] obtain m where
      m: "0 \<le> m" "m \<le> 2 ^ 24" "float32 y = of_int m * 2 powi quantum y" by blast
    show ?thesis unfolding m(3) using m(1,2) quantum_ge[of y] by (rule float32_exact_nonneg)
  qed
  consider "0 < x" | "x = 0" | "x < 0" by linarith
  then show ?thesis
  proof cases
    case 1
    then show ?thesis by (rule pos)
  next
    case 2
    then show ?thesis by simp
  next
    case 3
    then have "float32 (float32 (- x)) = float32 (- x)" by (intro pos) simp
    then show ?thesis by (simp add: float32_minus)
  qed
qed

lemma float32_double: "0 \<le> x \<Longrightarrow> float32 (2 * float32 x) = 2 * float32 x"
proof (cases "x = 0")
  case True
  then show ?thesis by simp
next
  case False
  assume "0 \<le> x"
  with False have p: "0 < x" by simp
  from float32_pos_form[OF p] obtain m where
    m: "0 \<le> m" "m \<le> 2 ^ 24" "float32 x = of_int m * 2 powi quantum x" by blast
  have "2 * float32 x = of_int m * 2 powi (quantum x + 1)"
    unfolding m(3) two_powi_Suc by simp
  moreover have "float32 (of_int m * 2 powi (quantum x + 1)) = of_int m * 2 powi (quantum x + 1)"
    using m(1,2) quantum_ge[of x] by (intro float32_exact_nonneg) simp_all
  ultimately show ?thesis by simp
qed

text \<open>Computing \<open>float32\<close> at a positive number whose binary exponent is known.\<close>

lemma float32_eval:
  assumes "0 < x" "2 powi k \<le> x" "x < 2 powi (k + 1)"
  shows "float32 x =
           of_int (round_even (x / 2 powi max (k - 23) (- 149))) * 2 powi max (k - 23) (- 149)"
proof -
  have "exp2 x = k" using assms by (rule exp2_unique)
  then have "quantum x = max (k - 23) (- 149)" using assms(1) by (simp add: quantum_def abs_of_pos)
  then show ?thesis using float32_pos[OF assms(1)] by simp
qed

lemma float32_numeral:
  "numeral n \<le> (16777216::int) \<Longrightarrow> float32 (numeral n) = numeral n"
  using float32_exact_nonneg[of "numeral n" 0] by simp

lemma float32_one: "float32 1 = 1"
  using float32_exact_nonneg[of 1 0] by simp

section \<open>The kernel computes the greedy selection\<close>

lemma nms_inner_length: "length (nms_inner dets thr i js flags) = length flags"
  by (induction js arbitrary: flags) simp_all

lemma nms_inner_nth:
  "k < length flags \<Longrightarrow>
   nms_inner dets thr i js flags ! k =
     (flags ! k \<or> (k \<in> set js \<and> quot_gt (ovr (dets ! i) (dets ! k)) thr))"
proof (induction js arbitrary: flags)
  case Nil
  then show ?case by simp
next
  case (Cons j js)
  show ?case
  proof (cases "flags ! j")
    case True
    with Cons show ?thesis by auto
  next
    case False
    show ?thesis
    proof (cases "quot_gt (ovr (dets ! i) (dets ! j)) thr")
      case True
      have "k < length (flags[j := True])" using Cons.prems by simp
      from Cons.IH[OF this] True False Cons.prems show ?thesis
        by (cases "k = j") (simp_all)
    next
      case no: False
      with False Cons show ?thesis by auto
    qed
  qed
qed

lemma set_nms_outer: "set (nms_outer dets thr order flags) \<subseteq> set order"
  by (induction order arbitrary: flags) auto

lemma nms_outer_greedy:
  "\<forall>i\<in>set order. i < length ds \<Longrightarrow> length flags = length ds \<Longrightarrow>
   map ((!) ds) (nms_outer (map row_of ds) thr order flags) =
     greedy_keep (suppresses thr) (map ((!) ds) (filter (\<lambda>j. \<not> flags ! j) order))"
proof (induction order arbitrary: flags)
  case Nil
  then show ?case by simp
next
  case (Cons i rest)
  let ?flags' = "nms_inner (map row_of ds) thr i rest flags"
  have len: "length ?flags' = length ds" using Cons.prems by (simp add: nms_inner_length)
  have rest: "\<forall>j\<in>set rest. j < length ds" using Cons.prems by simp
  have i: "i < length ds" using Cons.prems by simp
  show ?case
  proof (cases "flags ! i")
    case True
    with Cons.IH[OF rest Cons.prems(2)] show ?thesis by simp
  next
    case False
    have flt: "filter (\<lambda>j. \<not> ?flags' ! j) rest =
               filter (\<lambda>j. \<not> suppresses thr (ds ! i) (ds ! j)) (filter (\<lambda>j. \<not> flags ! j) rest)"
      using rest i Cons.prems(2)
      by (auto simp: nms_inner_nth suppresses_def intro!: filter_cong)
    have "map ((!) ds) (nms_outer (map row_of ds) thr (i # rest) flags) =
          ds ! i # greedy_keep (suppresses thr) (map ((!) ds) (filter (\<lambda>j. \<not> ?flags' ! j) rest))"
      using False Cons.IH[OF rest len] by simp
    also have "\<dots> =
          greedy_keep (suppresses thr) (map ((!) ds) (filter (\<lambda>j. \<not> flags ! j) (i # rest)))"
      using False by (simp add: flt filter_map comp_def)
    finally show ?thesis .
  qed
qed

lemma gather_map: "\<forall>i\<in>set is. i < length xs \<Longrightarrow> gather xs is = Inr (map ((!) xs) is)"
  by (induction "is") (simp_all add: getitem_def)

lemma map_insort_key:
  "map f (insort_key (\<lambda>i. g (f i)) x xs) = insort_key g (f x) (map f xs)"
  by (induction xs) simp_all

lemma map_sort_key: "map f (sort_key (\<lambda>i. g (f i)) xs) = sort_key g (map f xs)"
  by (induction xs) (simp_all add: map_insort_key)

lemma insort_key_cong_set:
  "f x = g x \<Longrightarrow> \<forall>y\<in>set xs. f y = g y \<Longrightarrow> insort_key f x xs = insort_key g x xs"
  by (induction xs) simp_all

lemma sort_key_cong_set: "\<forall>y\<in>set xs. f y = g y \<Longrightarrow> sort_key f xs = sort_key g xs"
proof (induction xs)
  case Nil
  then show ?case by simp
next
  case (Cons a xs)
  then have "sort_key f xs = sort_key g xs" by simp
  moreover have "insort_key f a (sort_key g xs) = insort_key g a (sort_key g xs)"
    using Cons.prems by (intro insort_key_cong_set) simp_all
  ultimately show ?case by simp
qed

lemma map_argsort_desc:
  "map ((!) ds) (argsort_desc (map f ds)) = sort_key (\<lambda>d. - f d) ds"
proof -
  have "sort_key (\<lambda>i. - (map f ds ! i)) [0..<length ds] =
        sort_key (\<lambda>i. - f (ds ! i)) [0..<length ds]"
    by (rule sort_key_cong_set) simp
  then have "map ((!) ds) (argsort_desc (map f ds)) =
             sort_key (\<lambda>d. - f d) (map ((!) ds) [0..<length ds])"
    by (simp add: argsort_desc_def map_sort_key[of "(!) ds" "\<lambda>d. - f d"])
  then show ?thesis by (simp add: map_nth)
qed

lemma set_argsort_desc: "set (argsort_desc scores) = {0..<length scores}"
  by (simp add: argsort_desc_def)

lemma apply_nms_greedy:
  "apply_nms ds thr = Inr (greedy_keep (suppresses thr) (sort_by_score32_desc ds))"
proof (cases "ds = []")
  case True
  then show ?thesis by (simp add: apply_nms_def sort_by_score32_desc_def)
next
  case False
  let ?order = "argsort_desc (map score32 ds)"
  let ?keep = "nms_outer (map row_of ds) thr ?order (replicate (length ds) False)"
  have ord: "\<forall>i\<in>set ?order. i < length ds" by (simp add: set_argsort_desc)
  have keep: "\<forall>i\<in>set ?keep. i < length ds" using set_nms_outer ord by blast
  have flt: "filter (\<lambda>j. \<not> replicate (length ds) False ! j) ?order = ?order"
    using ord by (simp add: filter_id_conv)
  have "apply_nms ds thr = gather ds ?keep"
    using False by (simp add: apply_nms_def nms_def)
  also have "\<dots> = Inr (map ((!) ds) ?keep)" using keep by (rule gather_map)
  also have "map ((!) ds) ?keep = greedy_keep (suppresses thr) (map ((!) ds) ?order)"
    using nms_outer_greedy[OF ord, of "replicate (length ds) False" thr] flt by simp
  finally show ?thesis by (simp add: map_argsort_desc sort_by_score32_desc_def)
qed

lemma apply_nms_indices:
  "(\<forall>i\<in>set (nms_outer (map row_of ds) thr (argsort_desc (map score32 ds))
                 (replicate (length ds) False)). i < length ds) \<and>
   apply_nms ds thr =
     Inr (map ((!) ds) (nms_outer (map row_of ds) thr (argsort_desc (map score32 ds))
                          (replicate (length ds) False)))"
proof -
  let ?order = "argsort_desc (map score32 ds)"
  let ?keep = "nms_outer (map row_of ds) thr ?order (replicate (length ds) False)"
  have ord: "\<forall>i\<in>set ?order. i < length ds" by (simp add: set_argsort_desc)
  have keep: "\<forall>i\<in>set ?keep. i < length ds" using set_nms_outer ord by blast
  have "apply_nms ds thr = Inr (map ((!) ds) ?keep)"
  proof (cases "ds = []")
    case True
    then show ?thesis by (simp add: apply_nms_def argsort_desc_def)
  next
    case False
    then have "apply_nms ds thr = gather ds ?keep" by (simp add: apply_nms_def nms_def)
    then show ?thesis using keep by (simp add: gather_map)
  qed
  with keep show ?thesis by blast
qed

lemma map_row_of_cong: "map box ds = map box ds' \<Longrightarrow> map row_of ds = map row_of ds'"
proof -
  assume h: "map box ds = map box ds'"
  let ?f = "\<lambda>b. (float32 (xmin b), float32 (ymin b), float32 (xmax b), float32 (ymax b))"
  have r: "row_of = ?f \<circ> box"
    by (rule ext) (simp add: row_of_def)
  have "map row_of ds = map ?f (map box ds)"
    unfolding r by (simp only: map_map)
  also have "\<dots> = map ?f (map box ds')"
    by (simp only: h)
  also have "\<dots> = map row_of ds'" unfolding r by (simp only: map_map)
  finally show ?thesis .
qed

lemma map_score32_cong: "map score ds = map score ds' \<Longrightarrow> map score32 ds = map score32 ds'"
proof -
  assume h: "map score ds = map score ds'"
  have r: "score32 = float32 \<circ> score"
    by (rule ext) (simp add: score32_def)
  have "map score32 ds = map float32 (map score ds)"
    unfolding r by (simp only: map_map)
  also have "\<dots> = map float32 (map score ds')"
    by (simp only: h)
  also have "\<dots> = map score32 ds'" unfolding r by (simp only: map_map)
  finally show ?thesis .
qed

lemma mset_greedy_keep: "mset (greedy_keep D xs) \<subseteq># mset xs"
proof (induction D xs rule: greedy_keep.induct)
  case (1 D)
  then show ?case by simp
next
  case (2 D x xs)
  have "mset (filter (\<lambda>y. \<not> D x y) xs) \<subseteq># mset xs"
    by (simp add: multiset_filter_subset)
  with 2 have "mset (greedy_keep D (filter (\<lambda>y. \<not> D x y) xs)) \<subseteq># mset xs"
    by (rule subset_mset.order_trans)
  then show ?case by simp
qed

lemma mset_sort_by_score32_desc: "mset (sort_by_score32_desc ds) = mset ds"
  by (simp add: sort_by_score32_desc_def)

lemma sort_by_score32_desc_Cons:
  assumes "sort_by_score32_desc ds = x # xs"
  shows "x \<in> set ds \<and> (\<forall>e\<in>set ds. score32 e \<le> score32 x)"
proof -
  have s: "set ds = set (x # xs)" using assms by (metis set_sort sort_by_score32_desc_def)
  have "sorted (map (\<lambda>d. - score32 d) (x # xs))"
    using assms sorted_sort_key[of "\<lambda>d. - score32 d" ds] by (simp add: sort_by_score32_desc_def)
  then have "\<forall>e\<in>set xs. score32 e \<le> score32 x" by simp
  with s show ?thesis by auto
qed

lemma sort_by_score32_desc_pair:
  "sort_by_score32_desc [a, b] = (if score32 b \<le> score32 a then [a, b] else [b, a])"
  by (simp add: sort_by_score32_desc_def)

lemma apply_nms_pair:
  "apply_nms [a, b] thr =
     Inr (if score32 b \<le> score32 a
          then (if suppresses thr a b then [a] else [a, b])
          else (if suppresses thr b a then [b] else [b, a]))"
  by (simp add: apply_nms_greedy sort_by_score32_desc_pair)

section \<open>The overlap of two boxes\<close>

lemma inter_area_nonneg: "0 \<le> inter_area a b"
proof -
  obtain ax1 ay1 ax2 ay2 where a: "a = (ax1, ay1, ax2, ay2)" by (cases a)
  obtain bx1 by1 bx2 by2 where b: "b = (bx1, by1, bx2, by2)" by (cases b)
  show ?thesis unfolding a b by (simp add: Let_def float32_nonneg)
qed

lemma inter_area_le_area:
  assumes "0 < inter_area a b"
  shows "inter_area a b \<le> area a" and "inter_area a b \<le> area b"
proof -
  obtain ax1 ay1 ax2 ay2 where a: "a = (ax1, ay1, ax2, ay2)" by (cases a)
  obtain bx1 by1 bx2 by2 where b: "b = (bx1, by1, bx2, by2)" by (cases b)
  let ?dx = "min ax2 bx2 - max ax1 bx1"
  let ?dy = "min ay2 by2 - max ay1 by1"
  let ?w = "max 0 (float32 ?dx)"
  let ?h = "max 0 (float32 ?dy)"
  have i: "inter_area a b = float32 (?w * ?h)" by (simp add: a b Let_def)
  have w0: "0 \<le> ?w" and h0: "0 \<le> ?h" by simp_all
  have "0 < ?w * ?h" using assms unfolding i by (rule float32_pos_imp)
  then have "?w \<noteq> 0" and "?h \<noteq> 0" by auto
  then have wp: "0 < ?w" and hp: "0 < ?h" using w0 h0 by linarith+
  then have we: "?w = float32 ?dx" and he: "?h = float32 ?dy" by linarith+
  have "?dx \<le> ax2 - ax1" and "?dx \<le> bx2 - bx1" by linarith+
  then have wa: "?w \<le> float32 (ax2 - ax1)" and wb: "?w \<le> float32 (bx2 - bx1)"
    unfolding we by (simp_all add: float32_mono)
  have "?dy \<le> ay2 - ay1" and "?dy \<le> by2 - by1" by linarith+
  then have ha: "?h \<le> float32 (ay2 - ay1)" and hb: "?h \<le> float32 (by2 - by1)"
    unfolding he by (simp_all add: float32_mono)
  have "?w * ?h \<le> float32 (ax2 - ax1) * float32 (ay2 - ay1)"
    using wa ha wp h0 by (intro mult_mono) linarith+
  then have "float32 (?w * ?h) \<le> float32 (float32 (ax2 - ax1) * float32 (ay2 - ay1))"
    by (rule float32_mono)
  then show "inter_area a b \<le> area a" unfolding i by (simp add: a)
  have "?w * ?h \<le> float32 (bx2 - bx1) * float32 (by2 - by1)"
    using wb hb wp h0 by (intro mult_mono) linarith+
  then have "float32 (?w * ?h) \<le> float32 (float32 (bx2 - bx1) * float32 (by2 - by1))"
    by (rule float32_mono)
  then show "inter_area a b \<le> area b" unfolding i by (simp add: b)
qed

lemma inter_area_double: "float32 (2 * inter_area a b) = 2 * inter_area a b"
proof -
  obtain ax1 ay1 ax2 ay2 where a: "a = (ax1, ay1, ax2, ay2)" by (cases a)
  obtain bx1 by1 bx2 by2 where b: "b = (bx1, by1, bx2, by2)" by (cases b)
  show ?thesis unfolding a b by (simp add: Let_def float32_double)
qed

lemma inter_area_idem: "float32 (inter_area a b) = inter_area a b"
proof -
  obtain ax1 ay1 ax2 ay2 where a: "a = (ax1, ay1, ax2, ay2)" by (cases a)
  obtain bx1 by1 bx2 by2 where b: "b = (bx1, by1, bx2, by2)" by (cases b)
  show ?thesis unfolding a b by (simp add: Let_def float32_idem)
qed

text \<open>A positive intersection forces a positive divisor, also after rounding.\<close>

lemma union32_zero_inter_zero:
  assumes "union32 a b = 0"
  shows "inter_area a b = 0"
proof (rule ccontr)
  assume "inter_area a b \<noteq> 0"
  then have p: "0 < inter_area a b" using inter_area_nonneg[of a b] by linarith
  have "2 * inter_area a b \<le> area a + area b" using inter_area_le_area[OF p] by linarith
  then have "float32 (2 * inter_area a b) \<le> float32 (area a + area b)" by (rule float32_mono)
  then have "inter_area a b \<le> float32 (area a + area b) - inter_area a b"
    unfolding inter_area_double by linarith
  then have "float32 (inter_area a b) \<le> union32 a b"
    unfolding union32_def by (rule float32_mono)
  then show False using p assms unfolding inter_area_idem by linarith
qed

lemma ovr_union_zero: "union32 a b = 0 \<Longrightarrow> ovr a b = NaN"
  using union32_zero_inter_zero[of a b] by (simp add: ovr_def fdiv_def)

lemma inter_area_commute: "inter_area a b = inter_area b a"
  by (cases a; cases b) (simp add: Let_def max.commute min.commute mult.commute)

lemma union32_commute: "union32 a b = union32 b a"
  by (simp add: union32_def inter_area_commute[of a b] add.commute)

lemma ovr_commute: "ovr a b = ovr b a"
  by (simp add: ovr_def inter_area_commute[of a b] union32_commute[of a b])

section \<open>The loops of the endpoint\<close>

lemma boxes_loop_filter:
  "\<forall>b\<in>set bs. CONFIDENCE_THRESHOLD \<le> conf b \<longrightarrow> nm (cls b) = Some (lab (cls b)) \<Longrightarrow>
   boxes_loop nm bs acc =
     Inr (acc @ map (\<lambda>b. make_detection (lab (cls b)) b)
                  (filter (\<lambda>b. CONFIDENCE_THRESHOLD \<le> conf b) bs))"
  by (induction bs arbitrary: acc) simp_all

lemma results_loop_filter:
  "\<forall>r\<in>set rs. \<forall>b\<in>set r. CONFIDENCE_THRESHOLD \<le> conf b \<longrightarrow> nm (cls b) = Some (lab (cls b)) \<Longrightarrow>
   results_loop nm rs acc =
     Inr (acc @ map (\<lambda>b. make_detection (lab (cls b)) b)
                  (filter (\<lambda>b. CONFIDENCE_THRESHOLD \<le> conf b) (concat rs)))"
proof (induction rs arbitrary: acc)
  case Nil
  then show ?case by simp
next
  case (Cons r rs)
  have "boxes_loop nm r acc =
     Inr (acc @ map (\<lambda>b. make_detection (lab (cls b)) b)
                  (filter (\<lambda>b. CONFIDENCE_THRESHOLD \<le> conf b) r))"
    using Cons.prems by (intro boxes_loop_filter) simp
  moreover have "\<forall>r\<in>set rs. \<forall>b\<in>set r. CONFIDENCE_THRESHOLD \<le> conf b \<longrightarrow> nm (cls b) = Some (lab (cls b))"
    using Cons.prems by simp
  ultimately show ?case using Cons.IH by simp
qed

lemma scales_loop_filter:
  "\<forall>sz\<in>set szs. \<forall>r\<in>set (md img sz). \<forall>b\<in>set r.
      CONFIDENCE_THRESHOLD \<le> conf b \<longrightarrow> nm (cls b) = Some (lab (cls b)) \<Longrightarrow>
   scales_loop md nm img szs acc calls =
     (Inr (acc @ concat (map (\<lambda>sz. map (\<lambda>b. make_detection (lab (cls b)) b)
                            (filter (\<lambda>b. CONFIDENCE_THRESHOLD \<le> conf b) (concat (md img sz)))) szs)),
      calls @ szs)"
proof (induction szs arbitrary: acc calls)
  case Nil
  then show ?case by simp
next
  case (Cons sz szs)
  have "results_loop nm (md img sz) acc =
     Inr (acc @ map (\<lambda>b. make_detection (lab (cls b)) b)
                  (filter (\<lambda>b. CONFIDENCE_THRESHOLD \<le> conf b) (concat (md img sz))))"
    using Cons.prems by (intro results_loop_filter) simp
  moreover have "\<forall>sz\<in>set szs. \<forall>r\<in>set (md img sz). \<forall>b\<in>set r.
      CONFIDENCE_THRESHOLD \<le> conf b \<longrightarrow> nm (cls b) = Some (lab (cls b))"
    using Cons.prems by simp
  ultimately show ?case using Cons.IH by (simp add: Let_def)
qed


section \<open>Evaluating the definitions on concrete inputs\<close>

text \<open>Single-precision values of the numbers that occur in the examples.\<close>

lemma float32_value_1: "float32 (1 / 7) = 9586981 / 67108864"
  using float32_eval[of "1 / 7" "- 3"] by (simp add: round_even_def)

lemma float32_value_2: "float32 (1 / 2) = 1 / 2"
  using float32_eval[of "1 / 2" "- 1"] by (simp add: round_even_def)

lemma float32_value_3: "float32 (536870913 / 1073741824) = 1 / 2"
  using float32_eval[of "536870913 / 1073741824" "- 1"] by (simp add: round_even_def)

lemma float32_value_4: "float32 (5849175 / 11698349) = 8388609 / 16777216"
  using float32_eval[of "5849175 / 11698349" "- 1"] by (simp add: round_even_def)

lemma float32_value_5: "float32 (3 / 5) = 5033165 / 8388608"
  using float32_eval[of "3 / 5" "- 1"] by (simp add: round_even_def)

lemma float32_value_6: "float32 (7 / 10) = 11744051 / 16777216"
  using float32_eval[of "7 / 10" "- 1"] by (simp add: round_even_def)

lemma float32_value_7: "float32 (3 / 4) = 3 / 4"
  using float32_eval[of "3 / 4" "- 1"] by (simp add: round_even_def)

lemma float32_value_8: "float32 (4 / 5) = 13421773 / 16777216"
  using float32_eval[of "4 / 5" "- 1"] by (simp add: round_even_def)

lemma float32_value_9: "float32 (17 / 20) = 7130317 / 8388608"
  using float32_eval[of "17 / 20" "- 1"] by (simp add: round_even_def)

lemma float32_value_10: "float32 (9 / 10) = 7549747 / 8388608"
  using float32_eval[of "9 / 10" "- 1"] by (simp add: round_even_def)

lemma float32_value_11: "float32 (13107199 / 65536) = 13107199 / 65536"
  using float32_eval[of "13107199 / 65536" "7"] by (simp add: round_even_def)

lemma float32_value_12: "float32 (2335 / 4) = 2335 / 4"
  using float32_eval[of "2335 / 4" "9"] by (simp add: round_even_def)

lemma float32_value_13: "float32 (2505 / 4) = 2505 / 4"
  using float32_eval[of "2505 / 4" "9"] by (simp add: round_even_def)

lemma float32_value_14: "float32 (2505 / 2) = 2505 / 2"
  using float32_eval[of "2505 / 2" "10"] by (simp add: round_even_def)

lemma float32_value_15: "float32 (65535995 / 32768) = 16383999 / 8192"
  using float32_eval[of "65535995 / 32768" "10"] by (simp add: round_even_def)

lemma float32_value_16: "float32 (16383999 / 8192) = 16383999 / 8192"
  using float32_eval[of "16383999 / 8192" "10"] by (simp add: round_even_def)

lemma float32_value_17: "float32 (24575999 / 8192) = 3000"
  using float32_eval[of "24575999 / 8192" "11"] by (simp add: round_even_def)

lemma float32_value_18: "float32 (16383999 / 4096) = 16383999 / 4096"
  using float32_eval[of "16383999 / 4096" "11"] by (simp add: round_even_def)

lemma float32_value_19: "float32 (5849175 / 16) = 5849175 / 16"
  using float32_eval[of "5849175 / 16" "18"] by (simp add: round_even_def)

lemma float32_value_20: "float32 (11698349 / 16) = 11698349 / 16"
  using float32_eval[of "11698349 / 16" "19"] by (simp add: round_even_def)

lemma float32_value_21: "float32 (5849175 / 8) = 5849175 / 8"
  using float32_eval[of "5849175 / 8" "19"] by (simp add: round_even_def)

lemma float32_value_22: "float32 (17547525 / 16) = 4386881 / 4"
  using float32_eval[of "17547525 / 16" "20"] by (simp add: round_even_def)

lemma float32_value_23: "float32 (5849175 / 4) = 5849175 / 4"
  using float32_eval[of "5849175 / 4" "20"] by (simp add: round_even_def)

lemmas float32_values =
  float32_value_1 float32_value_2 float32_value_3 float32_value_4
  float32_value_5 float32_value_6 float32_value_7 float32_value_8
  float32_value_9 float32_value_10 float32_value_11 float32_value_12
  float32_value_13 float32_value_14 float32_value_15 float32_value_16
  float32_value_17 float32_value_18 float32_value_19 float32_value_20
  float32_value_21 float32_value_22 float32_value_23

lemmas eval_apply_nms =
  apply_nms_greedy sort_by_score32_desc_def score32_def suppresses_def ovr_def union32_def
  fdiv_def row_of_def Let_def float32_minus float32_numeral float32_one float32_values

lemmas eval_reference =
  sort_by_score_desc_def iou_spec_def union_area_def box_area_def intersection_area_def

section \<open>Empty input\<close>

text \<open>
  Claim C9. The suppressor called with an empty list of Detections returns an empty list,
  whatever the threshold.
\<close>

theorem apply_nms_empty: "apply_nms [] thr = Inr []"
  by (simp add: apply_nms_def)

theorem apply_nms_empty_witness: "apply_nms [] (1 / 2) = Inr []"
  using apply_nms_empty [of "1 / 2"] by simp

section \<open>The suppressor only filters\<close>

text \<open>
  Claim C5. For every input list and every threshold the suppressor returns a list, and
  every Detection of that list is an element of the input with the same label, score and
  box: the output is a sub-multiset of the input, so its elements are elements of the
  input and it is at most as long as the input.
\<close>

theorem apply_nms_filters_only:
  "\<exists>out. apply_nms ds thr = Inr out \<and> mset out \<subseteq># mset ds \<and>
         set out \<subseteq> set ds \<and> length out \<le> length ds"
proof -
  let ?out = "greedy_keep (suppresses thr) (sort_by_score32_desc ds)"
  have sub: "mset ?out \<subseteq># mset ds"
    using mset_greedy_keep[of "suppresses thr" "sort_by_score32_desc ds"]
    by (simp add: mset_sort_by_score32_desc)
  have "set ?out \<subseteq> set ds" using set_mset_mono[OF sub] by simp
  moreover have "length ?out \<le> length ds" using size_mset_mono[OF sub] by simp
  ultimately show ?thesis using sub apply_nms_greedy[of ds thr] by blast
qed

theorem apply_nms_filters_only_witness:
  "\<exists>out. apply_nms [Detection ''stop'' (8/10) 0 0 10 10, Detection ''stop'' (9/10) 0 0 10 9,
                      Detection ''yield'' (7/10) 20 20 30 30] (1/2) = Inr out \<and>
     out = [Detection ''stop'' (9/10) 0 0 10 9, Detection ''yield'' (7/10) 20 20 30 30] \<and>
     mset out \<subseteq># mset [Detection ''stop'' (8/10) 0 0 10 10, Detection ''stop'' (9/10) 0 0 10 9,
                      Detection ''yield'' (7/10) 20 20 30 30] \<and>
     set out \<subseteq> set [Detection ''stop'' (8/10) 0 0 10 10, Detection ''stop'' (9/10) 0 0 10 9,
                      Detection ''yield'' (7/10) 20 20 30 30] \<and>
     length out \<le> length [Detection ''stop'' (8/10) 0 0 10 10, Detection ''stop'' (9/10) 0 0 10 9,
                      Detection ''yield'' (7/10) 20 20 30 30]"
  (is "\<exists>out. apply_nms ?X ?t = Inr out \<and> out = ?Y \<and> _")
proof -
  have e: "apply_nms ?X ?t = Inr ?Y" by (simp add: eval_apply_nms)
  from apply_nms_filters_only[of ?X ?t] obtain out where
    o: "apply_nms ?X ?t = Inr out" "mset out \<subseteq># mset ?X" "set out \<subseteq> set ?X" "length out \<le> length ?X"
    by blast
  from o(1) e have "out = ?Y" by simp
  with o show ?thesis by blast
qed

section \<open>The best Detection is kept\<close>

text \<open>
  Claim C10, as stated: for every non-empty input the highest-scoring Detection is kept.
  The scores are compared in single precision: of two Detections with the same box and
  the scores 1/2 and 1/2 + 2^-30, which round to the same single-precision number, the
  first is kept and the second, the highest-scoring one, is dropped.
\<close>

theorem apply_nms_best_counterexample:
  "score (Detection ''stop'' (1/2) 0 0 10 10) <
     score (Detection ''yield'' (536870913/1073741824) 0 0 10 10) \<and>
   apply_nms [Detection ''stop'' (1/2) 0 0 10 10,
              Detection ''yield'' (536870913/1073741824) 0 0 10 10] (1/2) =
     Inr [Detection ''stop'' (1/2) 0 0 10 10]"
  by (simp add: eval_apply_nms)

text \<open>
  Claim C10, amended: for every non-empty input list and every threshold, the suppressor's
  output is non-empty: its first element is a Detection of the input whose single-precision
  score is at least the single-precision score of every Detection of the input, so a
  Detection of the input with a higher score has the same score in single precision.
\<close>

theorem apply_nms_keeps_best:
  "ds \<noteq> [] \<Longrightarrow>
   \<exists>d rest. apply_nms ds thr = Inr (d # rest) \<and> d \<in> set ds \<and>
            (\<forall>e\<in>set ds. float32 (score e) \<le> float32 (score d)) \<and>
            (\<forall>e\<in>set ds. score d < score e \<longrightarrow> float32 (score e) = float32 (score d))"
proof -
  assume "ds \<noteq> []"
  then have "sort_by_score32_desc ds \<noteq> []"
    by (metis length_0_conv length_sort sort_by_score32_desc_def)
  then obtain x xs where c: "sort_by_score32_desc ds = x # xs"
    by (cases "sort_by_score32_desc ds") auto
  have a: "apply_nms ds thr =
        Inr (x # greedy_keep (suppresses thr) (filter (\<lambda>y. \<not> suppresses thr x y) xs))"
    by (simp add: apply_nms_greedy c)
  have m: "x \<in> set ds" and le: "\<forall>e\<in>set ds. float32 (score e) \<le> float32 (score x)"
    using sort_by_score32_desc_Cons[OF c] by (simp_all add: score32_def)
  have "\<forall>e\<in>set ds. score x < score e \<longrightarrow> float32 (score e) = float32 (score x)"
  proof (intro ballI impI)
    fix e assume "e \<in> set ds" "score x < score e"
    then have "float32 (score x) \<le> float32 (score e)" by (intro float32_mono) simp
    with le \<open>e \<in> set ds\<close> show "float32 (score e) = float32 (score x)" by force
  qed
  with a m le show ?thesis by blast
qed

theorem apply_nms_keeps_best_witness:
  "[Detection ''stop'' (8/10) 0 0 10 10, Detection ''stop'' (9/10) 0 0 10 9] \<noteq> [] \<and>
   (\<exists>d rest. apply_nms [Detection ''stop'' (8/10) 0 0 10 10, Detection ''stop'' (9/10) 0 0 10 9] 1
              = Inr (d # rest) \<and>
      d \<in> set [Detection ''stop'' (8/10) 0 0 10 10, Detection ''stop'' (9/10) 0 0 10 9] \<and>
      (\<forall>e\<in>set [Detection ''stop'' (8/10) 0 0 10 10, Detection ''stop'' (9/10) 0 0 10 9].
         float32 (score e) \<le> float32 (score d)) \<and>
      (\<forall>e\<in>set [Detection ''stop'' (8/10) 0 0 10 10, Detection ''stop'' (9/10) 0 0 10 9].
         score d < score e \<longrightarrow> float32 (score e) = float32 (score d)))"
  (is "?X \<noteq> [] \<and> _")
proof -
  have ne: "?X \<noteq> []" by simp
  from ne apply_nms_keeps_best[OF ne, of 1] show ?thesis by (rule conjI)
qed

section \<open>The suppressor against the reference algorithm\<close>

text \<open>
  Claim C1, as stated: for every list of Detections and every threshold in (0,1] the
  suppressor returns the result of the reference greedy algorithm that discards a remaining
  Detection when its IoU with the taken one is at least the threshold. This fails on two
  boxes whose IoU equals the threshold: the reference discards the second, the suppressor
  keeps both.
\<close>

theorem apply_nms_reference_counterexample:
  "apply_nms [Detection ''stop'' (3/4) 0 0 4 4, Detection ''stop'' (1/2) 0 0 4 2] (1/2) =
     Inr [Detection ''stop'' (3/4) 0 0 4 4, Detection ''stop'' (1/2) 0 0 4 2] \<and>
   reference_nms [Detection ''stop'' (3/4) 0 0 4 4, Detection ''stop'' (1/2) 0 0 4 2] (1/2) =
     [Detection ''stop'' (3/4) 0 0 4 4] \<and>
   apply_nms [Detection ''stop'' (3/4) 0 0 4 4, Detection ''stop'' (1/2) 0 0 4 2] (1/2) \<noteq>
     Inr (reference_nms [Detection ''stop'' (3/4) 0 0 4 4, Detection ''stop'' (1/2) 0 0 4 2] (1/2))"
proof -
  have a: "apply_nms [Detection ''stop'' (3/4) 0 0 4 4, Detection ''stop'' (1/2) 0 0 4 2] (1/2) =
     Inr [Detection ''stop'' (3/4) 0 0 4 4, Detection ''stop'' (1/2) 0 0 4 2]"
    by (simp add: eval_apply_nms)
  have r: "reference_nms [Detection ''stop'' (3/4) 0 0 4 4, Detection ''stop'' (1/2) 0 0 4 2] (1/2) =
     [Detection ''stop'' (3/4) 0 0 4 4]"
    by (simp add: reference_nms_def eval_reference)
  show ?thesis unfolding a r by simp
qed

text \<open>
  The strict comparison on the exact IoU is not what the suppressor computes either: the
  boxes (0,0,10,200 - 2^-16) and (0,0,10,100) have an exact IoU above 1/2, the overlap
  computed in single precision is 1/2, and both Detections are kept at threshold 1/2.
\<close>

lemma exact_strict_reference_differs:
  "apply_nms [Detection ''stop'' (3/4) 0 0 10 (13107199/65536),
              Detection ''stop'' (1/2) 0 0 10 100] (1/2) =
     Inr [Detection ''stop'' (3/4) 0 0 10 (13107199/65536), Detection ''stop'' (1/2) 0 0 10 100] \<and>
   reference_nms_strict [Detection ''stop'' (3/4) 0 0 10 (13107199/65536),
              Detection ''stop'' (1/2) 0 0 10 100] (1/2) =
     [Detection ''stop'' (3/4) 0 0 10 (13107199/65536)]"
  by (simp add: eval_apply_nms reference_nms_strict_def eval_reference)

text \<open>
  Claim C1, amended: for every list of Detections and every threshold, the suppressor
  returns exactly the result of the reference greedy algorithm run in single precision:
  sort the Detections by their single-precision score, descending and stable, then
  repeatedly take the highest-scoring remaining Detection, add it to the kept list and
  discard every remaining Detection whose IoU with it, computed in single precision as the
  kernel does, is strictly greater than the threshold; the kept list is returned in that
  descending order.
\<close>

theorem apply_nms_refines_float32_reference:
  "apply_nms ds thr = Inr (reference_nms_float32 ds thr)"
  by (simp add: apply_nms_greedy reference_nms_float32_def)

theorem apply_nms_refines_float32_reference_witness:
  "apply_nms [Detection ''stop'' (8/10) 0 0 10 10, Detection ''stop'' (9/10) 0 0 10 9,
              Detection ''yield'' (7/10) 20 20 30 30] (1/2) =
     Inr (reference_nms_float32 [Detection ''stop'' (8/10) 0 0 10 10, Detection ''stop'' (9/10) 0 0 10 9,
              Detection ''yield'' (7/10) 20 20 30 30] (1/2)) \<and>
   reference_nms_float32 [Detection ''stop'' (8/10) 0 0 10 10, Detection ''stop'' (9/10) 0 0 10 9,
              Detection ''yield'' (7/10) 20 20 30 30] (1/2) =
     [Detection ''stop'' (9/10) 0 0 10 9, Detection ''yield'' (7/10) 20 20 30 30]"
  (is "apply_nms ?X ?t = _ \<and> _")
proof -
  have r: "reference_nms_float32 ?X ?t =
     [Detection ''stop'' (9/10) 0 0 10 9, Detection ''yield'' (7/10) 20 20 30 30]"
    by (simp add: reference_nms_float32_def eval_apply_nms)
  from apply_nms_refines_float32_reference[of ?X ?t] r show ?thesis by blast
qed

section \<open>The threshold boundary\<close>

text \<open>
  Claim C2, as stated: of two Detections whose boxes have an IoU exactly equal to the
  threshold, the suppressor discards the lower-scoring one. It does not: at threshold 1/2
  the boxes (0,0,10,10) and (0,0,5,10) have IoU 1/2, exactly and as computed in single
  precision, and both Detections are returned.
\<close>

theorem boundary_pair_counterexample:
  "iou_spec (box (Detection ''stop'' (9/10) 0 0 10 10)) (box (Detection ''stop'' (8/10) 0 0 5 10)) = 1/2 \<and>
   ovr (row_of (Detection ''stop'' (9/10) 0 0 10 10)) (row_of (Detection ''stop'' (8/10) 0 0 5 10)) =
     Finite (1/2) \<and>
   score (Detection ''stop'' (8/10) 0 0 5 10) < score (Detection ''stop'' (9/10) 0 0 10 10) \<and>
   apply_nms [Detection ''stop'' (9/10) 0 0 10 10, Detection ''stop'' (8/10) 0 0 5 10] (1/2) =
     Inr [Detection ''stop'' (9/10) 0 0 10 10, Detection ''stop'' (8/10) 0 0 5 10]"
  by (simp add: eval_apply_nms eval_reference)

text \<open>
  Claim C2, amended: the comparison used for suppression is strictly greater than, on the
  IoU that the kernel computes in single precision. Of two Detections whose computed IoU
  is exactly equal to the threshold the suppressor discards neither; and the Detection
  that comes second in the descending single-precision score order is discarded exactly
  when the computed IoU is strictly greater than the threshold.
\<close>

theorem boundary_pair_strict:
  "(ovr (row_of a) (row_of b) = Finite thr \<longrightarrow>
      apply_nms [a, b] thr = Inr (if score32 b \<le> score32 a then [a, b] else [b, a])) \<and>
   (score32 b \<le> score32 a \<longrightarrow>
      apply_nms [a, b] thr =
        Inr (if quot_gt (ovr (row_of a) (row_of b)) thr then [a] else [a, b])) \<and>
   (\<not> score32 b \<le> score32 a \<longrightarrow>
      apply_nms [a, b] thr =
        Inr (if quot_gt (ovr (row_of b) (row_of a)) thr then [b] else [b, a]))"
proof (intro conjI impI)
  assume e: "ovr (row_of a) (row_of b) = Finite thr"
  then have "ovr (row_of b) (row_of a) = Finite thr" by (simp add: ovr_commute)
  with e have "\<not> suppresses thr a b" and "\<not> suppresses thr b a"
    by (simp_all add: suppresses_def)
  then show "apply_nms [a, b] thr = Inr (if score32 b \<le> score32 a then [a, b] else [b, a])"
    by (simp add: apply_nms_pair)
next
  assume "score32 b \<le> score32 a"
  then show "apply_nms [a, b] thr =
        Inr (if quot_gt (ovr (row_of a) (row_of b)) thr then [a] else [a, b])"
    by (simp add: apply_nms_pair suppresses_def)
next
  assume "\<not> score32 b \<le> score32 a"
  then show "apply_nms [a, b] thr =
        Inr (if quot_gt (ovr (row_of b) (row_of a)) thr then [b] else [b, a])"
    by (simp add: apply_nms_pair suppresses_def)
qed

theorem boundary_pair_strict_witness:
  "ovr (row_of (Detection ''stop'' (8/10) 0 0 5 10)) (row_of (Detection ''stop'' (9/10) 0 0 10 10)) =
     Finite (1/2) \<and>
   apply_nms [Detection ''stop'' (8/10) 0 0 5 10, Detection ''stop'' (9/10) 0 0 10 10] (1/2) =
     Inr [Detection ''stop'' (9/10) 0 0 10 10, Detection ''stop'' (8/10) 0 0 5 10] \<and>
   score32 (Detection ''stop'' (1/2) 0 0 (2335/4) (2505/4)) \<le>
     score32 (Detection ''stop'' (3/4) 0 0 (2335/4) (2505/2)) \<and>
   quot_gt (ovr (row_of (Detection ''stop'' (3/4) 0 0 (2335/4) (2505/2)))
                (row_of (Detection ''stop'' (1/2) 0 0 (2335/4) (2505/4)))) (1/2) \<and>
   apply_nms [Detection ''stop'' (3/4) 0 0 (2335/4) (2505/2),
              Detection ''stop'' (1/2) 0 0 (2335/4) (2505/4)] (1/2) =
     Inr [Detection ''stop'' (3/4) 0 0 (2335/4) (2505/2)]"
proof -
  have h1: "ovr (row_of (Detection ''stop'' (8/10) 0 0 5 10))
                (row_of (Detection ''stop'' (9/10) 0 0 10 10)) = Finite (1/2)"
    by (simp add: eval_apply_nms)
  have o1: "\<not> score32 (Detection ''stop'' (9/10) 0 0 10 10) \<le>
              score32 (Detection ''stop'' (8/10) 0 0 5 10)"
    by (simp add: eval_apply_nms)
  have h2: "score32 (Detection ''stop'' (1/2) 0 0 (2335/4) (2505/4)) \<le>
            score32 (Detection ''stop'' (3/4) 0 0 (2335/4) (2505/2))"
    by (simp add: eval_apply_nms)
  have g: "quot_gt (ovr (row_of (Detection ''stop'' (3/4) 0 0 (2335/4) (2505/2)))
                (row_of (Detection ''stop'' (1/2) 0 0 (2335/4) (2505/4)))) (1/2)"
    by (simp add: eval_apply_nms)
  from boundary_pair_strict
    [of "Detection ''stop'' (8/10) 0 0 5 10" "Detection ''stop'' (9/10) 0 0 10 10" "1/2"] h1 o1
  have r1: "apply_nms [Detection ''stop'' (8/10) 0 0 5 10, Detection ''stop'' (9/10) 0 0 10 10] (1/2) =
     Inr [Detection ''stop'' (9/10) 0 0 10 10, Detection ''stop'' (8/10) 0 0 5 10]"
    by simp
  from boundary_pair_strict
    [of "Detection ''stop'' (3/4) 0 0 (2335/4) (2505/2)"
        "Detection ''stop'' (1/2) 0 0 (2335/4) (2505/4)" "1/2"] h2 g
  have r2: "apply_nms [Detection ''stop'' (3/4) 0 0 (2335/4) (2505/2),
              Detection ''stop'' (1/2) 0 0 (2335/4) (2505/4)] (1/2) =
     Inr [Detection ''stop'' (3/4) 0 0 (2335/4) (2505/2)]"
    by simp
  from h1 r1 h2 g r2 show ?thesis by blast
qed

section \<open>Class-agnostic suppression\<close>

text \<open>
  Claim C6. Labels play no role in the suppression: two lists of Detections that agree,
  position by position, on boxes and scores have the same positions kept, whatever their
  labels. In the example of two overlapping Detections with IoU 9/10, scores 0.9 and 0.85
  and threshold 0.5, only the Detection with score 0.9 survives, whatever the two labels
  are and in whichever order the two are given.
\<close>

theorem suppression_class_agnostic:
  "(map box ds = map box ds' \<and> map score ds = map score ds' \<longrightarrow>
      (\<exists>keep. (\<forall>i\<in>set keep. i < length ds) \<and>
              apply_nms ds thr = Inr (map ((!) ds) keep) \<and>
              apply_nms ds' thr = Inr (map ((!) ds') keep))) \<and>
   (box a = \<lparr>xmin = 0, ymin = 0, xmax = 10, ymax = 10\<rparr> \<and> score a = 9/10 \<and>
    box b = \<lparr>xmin = 0, ymin = 0, xmax = 10, ymax = 9\<rparr> \<and> score b = 85/100 \<longrightarrow>
      iou_spec (box a) (box b) = 9/10 \<and>
      apply_nms [a, b] (1/2) = Inr [a] \<and> apply_nms [b, a] (1/2) = Inr [a])"
proof (intro conjI impI)
  assume h: "map box ds = map box ds' \<and> map score ds = map score ds'"
  then have len: "length ds = length ds'" by (metis length_map)
  let ?keep = "nms_outer (map row_of ds) thr (argsort_desc (map score32 ds))
                 (replicate (length ds) False)"
  have "apply_nms ds' thr = Inr (map ((!) ds') ?keep)"
    using apply_nms_indices[of ds' thr] h map_row_of_cong[of ds ds']
      map_score32_cong[of ds ds'] len by simp
  with apply_nms_indices[of ds thr]
  show "\<exists>keep. (\<forall>i\<in>set keep. i < length ds) \<and>
              apply_nms ds thr = Inr (map ((!) ds) keep) \<and>
              apply_nms ds' thr = Inr (map ((!) ds') keep)"
    by blast
next
  assume h: "box a = \<lparr>xmin = 0, ymin = 0, xmax = 10, ymax = 10\<rparr> \<and> score a = 9/10 \<and>
    box b = \<lparr>xmin = 0, ymin = 0, xmax = 10, ymax = 9\<rparr> \<and> score b = 85/100"
  then have ba: "box a = \<lparr>xmin = 0, ymin = 0, xmax = 10, ymax = 10\<rparr>"
    and sa: "score a = 9/10"
    and bb: "box b = \<lparr>xmin = 0, ymin = 0, xmax = 10, ymax = 9\<rparr>"
    and sb: "score b = 85/100"
    by blast+
  show "iou_spec (box a) (box b) = 9/10" unfolding ba bb by (simp add: eval_reference)
  have ord: "score32 b \<le> score32 a" "\<not> score32 a \<le> score32 b"
    unfolding score32_def sa sb by (simp_all add: float32_values)
  have s: "suppresses (1/2) a b" "suppresses (1/2) b a"
    unfolding suppresses_def row_of_def ba bb by (simp_all add: eval_apply_nms)
  show "apply_nms [a, b] (1/2) = Inr [a]"
    using ord s by (simp add: apply_nms_pair)
  show "apply_nms [b, a] (1/2) = Inr [a]"
    using ord s by (simp add: apply_nms_pair)
qed

theorem suppression_class_agnostic_witness:
  "(\<exists>keep. (\<forall>i\<in>set keep. i < length [Detection ''cat'' (9/10) 0 0 10 10, Detection ''dog'' (85/100) 0 0 10 9]) \<and>
      apply_nms [Detection ''cat'' (9/10) 0 0 10 10, Detection ''dog'' (85/100) 0 0 10 9] (1/2) =
        Inr (map ((!) [Detection ''cat'' (9/10) 0 0 10 10, Detection ''dog'' (85/100) 0 0 10 9]) keep) \<and>
      apply_nms [Detection ''cat'' (9/10) 0 0 10 10, Detection ''cat'' (85/100) 0 0 10 9] (1/2) =
        Inr (map ((!) [Detection ''cat'' (9/10) 0 0 10 10, Detection ''cat'' (85/100) 0 0 10 9]) keep)) \<and>
   iou_spec (box (Detection ''cat'' (9/10) 0 0 10 10)) (box (Detection ''dog'' (85/100) 0 0 10 9)) = 9/10 \<and>
   apply_nms [Detection ''cat'' (9/10) 0 0 10 10, Detection ''dog'' (85/100) 0 0 10 9] (1/2) =
     Inr [Detection ''cat'' (9/10) 0 0 10 10] \<and>
   apply_nms [Detection ''dog'' (85/100) 0 0 10 9, Detection ''cat'' (9/10) 0 0 10 10] (1/2) =
     Inr [Detection ''cat'' (9/10) 0 0 10 10]"
proof -
  have h1: "map box [Detection ''cat'' (9/10) 0 0 10 10, Detection ''dog'' (85/100) 0 0 10 9] =
            map box [Detection ''cat'' (9/10) 0 0 10 10, Detection ''cat'' (85/100) 0 0 10 9] \<and>
            map score [Detection ''cat'' (9/10) 0 0 10 10, Detection ''dog'' (85/100) 0 0 10 9] =
            map score [Detection ''cat'' (9/10) 0 0 10 10, Detection ''cat'' (85/100) 0 0 10 9]"
    by simp
  have h2: "box (Detection ''cat'' (9/10) 0 0 10 10) = \<lparr>xmin = 0, ymin = 0, xmax = 10, ymax = 10\<rparr> \<and>
            score (Detection ''cat'' (9/10) 0 0 10 10) = 9/10 \<and>
            box (Detection ''dog'' (85/100) 0 0 10 9) = \<lparr>xmin = 0, ymin = 0, xmax = 10, ymax = 9\<rparr> \<and>
            score (Detection ''dog'' (85/100) 0 0 10 9) = 85/100"
    by simp
  from suppression_class_agnostic
    [of "[Detection ''cat'' (9/10) 0 0 10 10, Detection ''dog'' (85/100) 0 0 10 9]"
        "[Detection ''cat'' (9/10) 0 0 10 10, Detection ''cat'' (85/100) 0 0 10 9]"
        "1/2"
        "Detection ''cat'' (9/10) 0 0 10 10" "Detection ''dog'' (85/100) 0 0 10 9"] h1 h2
  show ?thesis by blast
qed

section \<open>The IoU of two boxes\<close>

text \<open>
  Claim C7, as stated: for the boxes (0,0,10,10) and (5,5,15,15) the IoU computed by the
  suppressor equals 25/175, and with threshold 0.1 only the higher-scoring Detection is
  kept. The suppressor computes in single precision: the quotient is 9586981 / 2^26, the
  single-precision number nearest to 25/175, and with the scores 1/2 and 1/2 + 2^-30,
  equal in single precision, the lower-scoring Detection is the one kept.
\<close>

theorem iou_example_counterexample:
  "ovr (row_of (Detection ''stop'' (1/2) 0 0 10 10))
       (row_of (Detection ''stop'' (536870913/1073741824) 5 5 15 15)) =
     Finite (9586981/67108864) \<and>
   (9586981/67108864 :: real) \<noteq> 25/175 \<and>
   score (Detection ''stop'' (1/2) 0 0 10 10) <
     score (Detection ''stop'' (536870913/1073741824) 5 5 15 15) \<and>
   apply_nms [Detection ''stop'' (1/2) 0 0 10 10,
              Detection ''stop'' (536870913/1073741824) 5 5 15 15] (1/10) =
     Inr [Detection ''stop'' (1/2) 0 0 10 10]"
  by (simp add: eval_apply_nms)

text \<open>
  Claim C7, amended: for the boxes (0,0,10,10) and (5,5,15,15) the suppressor computes the
  intersection area 25, the union area 175 and the IoU 9586981 / 2^26, the single-precision
  number nearest to 25/175 (within 10^-8 of it); consequently with threshold 0.5, as with
  every threshold that is at least the computed IoU, both Detections are kept, and with
  threshold 0.1, as with every threshold below the computed IoU, only the one with the
  higher single-precision score is kept (the first of the two when these scores are equal).
\<close>

theorem iou_example:
  "box a = \<lparr>xmin = 0, ymin = 0, xmax = 10, ymax = 10\<rparr> \<and>
   box b = \<lparr>xmin = 5, ymin = 5, xmax = 15, ymax = 15\<rparr> \<longrightarrow>
     inter_area (row_of a) (row_of b) = 25 \<and>
     union32 (row_of a) (row_of b) = 175 \<and>
     ovr (row_of a) (row_of b) = Finite (float32 (25/175)) \<and>
     float32 (25/175) = 9586981/67108864 \<and>
     \<bar>float32 (25/175) - 25/175\<bar> < 1/100000000 \<and>
     apply_nms [a, b] (1/2) = Inr (if score32 b \<le> score32 a then [a, b] else [b, a]) \<and>
     apply_nms [a, b] (1/10) = Inr (if score32 b \<le> score32 a then [a] else [b]) \<and>
     (9586981/67108864 \<le> thr \<longrightarrow>
        apply_nms [a, b] thr = Inr (if score32 b \<le> score32 a then [a, b] else [b, a])) \<and>
     (thr < 9586981/67108864 \<longrightarrow>
        apply_nms [a, b] thr = Inr (if score32 b \<le> score32 a then [a] else [b]))"
proof (intro impI)
  assume h: "box a = \<lparr>xmin = 0, ymin = 0, xmax = 10, ymax = 10\<rparr> \<and>
   box b = \<lparr>xmin = 5, ymin = 5, xmax = 15, ymax = 15\<rparr>"
  then have ba: "box a = \<lparr>xmin = 0, ymin = 0, xmax = 10, ymax = 10\<rparr>"
    and bb: "box b = \<lparr>xmin = 5, ymin = 5, xmax = 15, ymax = 15\<rparr>"
    by blast+
  have i: "inter_area (row_of a) (row_of b) = 25"
    unfolding row_of_def ba bb by (simp add: eval_apply_nms)
  have u: "union32 (row_of a) (row_of b) = 175"
    unfolding row_of_def ba bb by (simp add: eval_apply_nms)
  have f: "float32 (25/175) = 9586981/67108864" by (simp add: float32_values)
  have o: "ovr (row_of a) (row_of b) = Finite (float32 (25/175))"
    unfolding ovr_def i u by (simp add: fdiv_def)
  have o': "ovr (row_of b) (row_of a) = Finite (float32 (25/175))"
    using o by (simp add: ovr_commute)
  have s: "suppresses t a b = (t < 9586981/67108864)"
          "suppresses t b a = (t < 9586981/67108864)" for t
    unfolding suppresses_def o o' f by simp_all
  have d: "\<bar>float32 (25/175) - 25/175\<bar> < 1/100000000" unfolding f by simp
  have half: "apply_nms [a, b] (1/2) = Inr (if score32 b \<le> score32 a then [a, b] else [b, a])"
    by (simp add: apply_nms_pair s)
  have tenth: "apply_nms [a, b] (1/10) = Inr (if score32 b \<le> score32 a then [a] else [b])"
    by (simp add: apply_nms_pair s)
  have above: "9586981/67108864 \<le> thr \<longrightarrow>
        apply_nms [a, b] thr = Inr (if score32 b \<le> score32 a then [a, b] else [b, a])"
    by (simp add: apply_nms_pair s)
  have below: "thr < 9586981/67108864 \<longrightarrow>
        apply_nms [a, b] thr = Inr (if score32 b \<le> score32 a then [a] else [b])"
    by (simp add: apply_nms_pair s)
  from i u o f d half tenth above below
  show "inter_area (row_of a) (row_of b) = 25 \<and>
     union32 (row_of a) (row_of b) = 175 \<and>
     ovr (row_of a) (row_of b) = Finite (float32 (25/175)) \<and>
     float32 (25/175) = 9586981/67108864 \<and>
     \<bar>float32 (25/175) - 25/175\<bar> < 1/100000000 \<and>
     apply_nms [a, b] (1/2) = Inr (if score32 b \<le> score32 a then [a, b] else [b, a]) \<and>
     apply_nms [a, b] (1/10) = Inr (if score32 b \<le> score32 a then [a] else [b]) \<and>
     (9586981/67108864 \<le> thr \<longrightarrow>
        apply_nms [a, b] thr = Inr (if score32 b \<le> score32 a then [a, b] else [b, a])) \<and>
     (thr < 9586981/67108864 \<longrightarrow>
        apply_nms [a, b] thr = Inr (if score32 b \<le> score32 a then [a] else [b]))"
    by blast
qed

theorem iou_example_witness:
  "ovr (row_of (Detection ''stop'' (6/10) 0 0 10 10)) (row_of (Detection ''stop'' (7/10) 5 5 15 15)) =
     Finite (9586981/67108864) \<and>
   apply_nms [Detection ''stop'' (6/10) 0 0 10 10, Detection ''stop'' (7/10) 5 5 15 15] (1/2) =
     Inr [Detection ''stop'' (7/10) 5 5 15 15, Detection ''stop'' (6/10) 0 0 10 10] \<and>
   apply_nms [Detection ''stop'' (6/10) 0 0 10 10, Detection ''stop'' (7/10) 5 5 15 15] (1/10) =
     Inr [Detection ''stop'' (7/10) 5 5 15 15]"
proof -
  have h: "box (Detection ''stop'' (6/10) 0 0 10 10) = \<lparr>xmin = 0, ymin = 0, xmax = 10, ymax = 10\<rparr> \<and>
           box (Detection ''stop'' (7/10) 5 5 15 15) = \<lparr>xmin = 5, ymin = 5, xmax = 15, ymax = 15\<rparr>"
    by simp
  have o: "\<not> score32 (Detection ''stop'' (7/10) 5 5 15 15) \<le> score32 (Detection ''stop'' (6/10) 0 0 10 10)"
    by (simp add: eval_apply_nms)
  from iou_example [of "Detection ''stop'' (6/10) 0 0 10 10" "Detection ''stop'' (7/10) 5 5 15 15" "1/2"] h o
  have p1: "ovr (row_of (Detection ''stop'' (6/10) 0 0 10 10)) (row_of (Detection ''stop'' (7/10) 5 5 15 15)) =
     Finite (9586981/67108864) \<and>
   apply_nms [Detection ''stop'' (6/10) 0 0 10 10, Detection ''stop'' (7/10) 5 5 15 15] (1/2) =
     Inr [Detection ''stop'' (7/10) 5 5 15 15, Detection ''stop'' (6/10) 0 0 10 10]"
    by simp
  from iou_example [of "Detection ''stop'' (6/10) 0 0 10 10" "Detection ''stop'' (7/10) 5 5 15 15" "1/10"] h o
  have p2: "apply_nms [Detection ''stop'' (6/10) 0 0 10 10, Detection ''stop'' (7/10) 5 5 15 15] (1/10) =
     Inr [Detection ''stop'' (7/10) 5 5 15 15]"
    by simp
  from p1 p2 show ?thesis by blast
qed

section \<open>Degenerate boxes\<close>

text \<open>
  Claim C8. The suppressor returns a list on every input, degenerate boxes included: no
  division fails. When the union area that the kernel computes for two boxes is 0, the
  quotient is NaN, every comparison with it is false, and the suppressor called on the
  two Detections returns both, whatever the threshold: neither suppresses the other, as
  with an IoU of 0.
\<close>

theorem degenerate_boxes_safe:
  "(\<exists>out. apply_nms ds thr = Inr out) \<and>
   (union32 (row_of d) (row_of e) = 0 \<longrightarrow>
      ovr (row_of d) (row_of e) = NaN \<and>
      apply_nms [d, e] thr = Inr (if score32 e \<le> score32 d then [d, e] else [e, d]))"
proof (intro conjI impI)
  show "\<exists>out. apply_nms ds thr = Inr out" by (simp add: apply_nms_greedy)
next
  assume u: "union32 (row_of d) (row_of e) = 0"
  then have n: "ovr (row_of d) (row_of e) = NaN" by (rule ovr_union_zero)
  then have n': "ovr (row_of e) (row_of d) = NaN" by (simp add: ovr_commute)
  show "ovr (row_of d) (row_of e) = NaN" by (rule n)
  have "\<not> suppresses thr d e" "\<not> suppresses thr e d" by (simp_all add: suppresses_def n n')
  then show "apply_nms [d, e] thr = Inr (if score32 e \<le> score32 d then [d, e] else [e, d])"
    by (simp add: apply_nms_pair)
qed

theorem degenerate_boxes_safe_witness:
  "union32 (row_of (Detection ''stop'' (8/10) 5 5 5 5)) (row_of (Detection ''stop'' (9/10) 5 5 5 7)) = 0 \<and>
   ovr (row_of (Detection ''stop'' (8/10) 5 5 5 5)) (row_of (Detection ''stop'' (9/10) 5 5 5 7)) = NaN \<and>
   apply_nms [Detection ''stop'' (8/10) 5 5 5 5, Detection ''stop'' (9/10) 5 5 5 7] (1/2) =
     Inr [Detection ''stop'' (9/10) 5 5 5 7, Detection ''stop'' (8/10) 5 5 5 5]"
proof -
  have u: "union32 (row_of (Detection ''stop'' (8/10) 5 5 5 5))
                   (row_of (Detection ''stop'' (9/10) 5 5 5 7)) = 0"
    by (simp add: eval_apply_nms)
  have o: "\<not> score32 (Detection ''stop'' (9/10) 5 5 5 7) \<le> score32 (Detection ''stop'' (8/10) 5 5 5 5)"
    by (simp add: eval_apply_nms)
  from degenerate_boxes_safe
    [of _ "1/2" "Detection ''stop'' (8/10) 5 5 5 5" "Detection ''stop'' (9/10) 5 5 5 7"] u o
  show ?thesis by simp
qed

section \<open>The multi-scale adapter\<close>

text \<open>
  Claim C3. For every decoded image, provided the vocabulary holds the class of every raw
  box that reaches the confidence threshold, the adapter invokes the detector exactly once
  per resolution of [640, 960, 1280], in that order, and the flat list it accumulates
  consists of exactly the raw boxes whose confidence is at least 0.4, each turned into a
  Detection of label, score and box only: the Detection does not depend on the resolution
  at which the box was found.
\<close>

theorem collect_detections_multi_scale:
  assumes "\<forall>sz\<in>set [640, 960, 1280]. \<forall>r\<in>set (model ev (to_bgr ev img) sz). \<forall>b\<in>set r.
             CONFIDENCE_THRESHOLD \<le> conf b \<longrightarrow> names ev (cls b) = Some (lab (cls b))"
  shows "collect_detections ev img calls =
           (Inr (concat (map (\<lambda>sz. map (\<lambda>b. make_detection (lab (cls b)) b)
                                     (filter (\<lambda>b. 4 / 10 \<le> conf b)
                                        (concat (model ev (to_bgr ev img) sz))))
                           [640, 960, 1280])),
            calls @ [640, 960, 1280]) \<and>
         (decode ev contents = Some img \<longrightarrow>
            snd (detect ev contents calls) = calls @ [640, 960, 1280])"
proof -
  have c: "collect_detections ev img calls =
           (Inr (concat (map (\<lambda>sz. map (\<lambda>b. make_detection (lab (cls b)) b)
                                     (filter (\<lambda>b. CONFIDENCE_THRESHOLD \<le> conf b)
                                        (concat (model ev (to_bgr ev img) sz))))
                           [640, 960, 1280])),
            calls @ [640, 960, 1280])"
    unfolding collect_detections_def Let_def
    using scales_loop_filter[of "[640, 960, 1280]" "model ev" "to_bgr ev img" "names ev" lab "[]" calls]
      assms by simp
  have "decode ev contents = Some img \<longrightarrow>
            snd (detect ev contents calls) = calls @ [640, 960, 1280]"
    by (simp add: detect_def c apply_nms_greedy)
  with c show ?thesis by (simp add: CONFIDENCE_THRESHOLD_def)
qed

theorem collect_detections_multi_scale_witness:
  "collect_detections example_env [1, 2, 3] [] =
     (Inr [Detection ''stop'' (9 / 10) 0 0 10 10, Detection ''yield'' (4 / 10) 1 1 5 5],
      [640, 960, 1280]) \<and>
   snd (detect example_env [255, 216] []) = [640, 960, 1280]"
proof -
  have hyp: "\<forall>sz\<in>set [640, 960, 1280].
      \<forall>r\<in>set (model example_env (to_bgr example_env [1, 2, 3]) sz). \<forall>b\<in>set r.
        CONFIDENCE_THRESHOLD \<le> conf b \<longrightarrow>
        names example_env (cls b) = Some ((\<lambda>c. if c = 0 then ''stop'' else ''yield'') (cls b))"
    by (simp add: CONFIDENCE_THRESHOLD_def)
  have dec: "decode example_env [255, 216] = Some [1, 2, 3]" by simp
  from collect_detections_multi_scale[OF hyp, of "[]" "[255, 216]"] dec
  show ?thesis by (simp add: make_detection_def)
qed

section \<open>Invalid images\<close>

text \<open>
  Claim C4. When the uploaded bytes fail to decode, the endpoint returns the payload
  \<open>{"error": "Invalid image"}\<close> and the detector is not invoked: the log of invocations
  is unchanged.
\<close>

theorem detect_invalid_image:
  "decode ev contents = None \<Longrightarrow>
   detect ev contents calls = (Inr (JsonObject [(''error'', ''Invalid image'')]), calls)"
  by (simp add: detect_def)

theorem detect_invalid_image_witness:
  "decode example_env [1, 2, 3] = None \<and>
   detect example_env [1, 2, 3] [] = (Inr (JsonObject [(''error'', ''Invalid image'')]), [])"
proof -
  have h: "decode example_env [1, 2, 3] = None" by simp
  from h detect_invalid_image[OF h, of "[]"] show ?thesis by (rule conjI)
qed

end
